theory Spec2Isabelle
  imports Main "HOL-Library.Sublist"
begin

section \<open>The sync engine of dregsy (src/sync/sync.go)\<close>

text \<open>
  The engine drives an external Docker client (package \<open>docker\<close>) and a few methods of
  \<open>task\<close> and \<open>Location\<close> that live in other files of package \<open>sync\<close>. Those
  collaborators are parameters of the model, collected in the record \<open>env\<close>; every theorem
  holds for every such environment. What the engine itself does (the order of the calls, the
  early returns, what is logged and what is returned) is translated from the source.

  A Go \<open>error\<close> is its message; \<open>nil\<close> is \<open>None\<close>. Pointers are addresses into explicit
  stores: \<open>*docker.Image\<close> into \<open>heap\<close>, \<open>*Location\<close> into \<open>locs\<close>.
\<close>

subsection \<open>Data\<close>

type_synonym err = string
type_synonym addr = nat

record Image =
  ID :: string
  Repo :: string
  Path :: string
  Tags :: "string list"

record Location =
  Registry :: string
  Auth :: string

record mapping =
  From :: string
  To :: string
  Tags :: "string list"

record task =
  Name :: string
  Interval :: int
  Source :: addr
  Target :: addr
  Mappings :: "mapping list"
  Verbose :: bool

record syncConfig =
  Tasks :: "task list"

text \<open>
  What the engine does to the outside, in the order it does it. A client call is recorded
  together with what the client answered; \<open>EvSync\<close> and \<open>EvSyncTask\<close> mark the calls of
  \<open>Sync\<close> (with its result) and of \<open>SyncTask\<close>; \<open>Info\<close> and \<open>Error\<close> are the
  lines written by \<open>LogInfo\<close> and \<open>LogError\<close> (the message, without the time stamp and
  level that \<open>log\<close> adds when the output is not a terminal).
\<close>

datatype event =
    Info string
  | Error err
  | EvPing int int "err option"
  | EvPullImage string bool string bool "err option"
  | EvListImages string "Image list" "err option"
  | EvTagImage string string "err option"
  | EvPushImage string bool string bool "err option"
  | EvRefreshAuth addr "err option"
  | EvEnsureTargetExists string "err option"
  | EvStartTicking task
  | EvSyncTask task
  | EvSync string string string string "string list" bool "err option"

text \<open>
  The collaborators. \<open>'d\<close> is the state of everything outside the engine (the Docker
  daemon, the registries, the credential service). \<open>PullImage\<close>, \<open>ListImages\<close>,
  \<open>TagImage\<close>, \<open>PushImage\<close>, \<open>Ping\<close> and \<open>SplitRef\<close> are those of \<open>docker.Client\<close>,
  with the argument order of the calls in sync.go; \<open>RefWithTags\<close> is the method of
  \<open>docker.Image\<close>; \<open>mappingRefs\<close>, \<open>refreshAuth\<close> and \<open>ensureTargetExists\<close> are the
  methods of \<open>task\<close> and \<open>Location\<close>. \<open>mappingRefs\<close> combines the two registry names
  with the mapping; \<open>refreshAuth\<close> answers an error and the credential the Location holds
  afterwards.
\<close>

record 'd env =
  Ping :: "int \<Rightarrow> int \<Rightarrow> 'd \<Rightarrow> err option \<times> 'd"
  PullImage :: "string \<Rightarrow> bool \<Rightarrow> string \<Rightarrow> bool \<Rightarrow> 'd \<Rightarrow> err option \<times> 'd"
  ListImages :: "string \<Rightarrow> 'd \<Rightarrow> (Image list \<times> err option) \<times> 'd"
  TagImage :: "string \<Rightarrow> string \<Rightarrow> 'd \<Rightarrow> err option \<times> 'd"
  PushImage :: "string \<Rightarrow> bool \<Rightarrow> string \<Rightarrow> bool \<Rightarrow> 'd \<Rightarrow> err option \<times> 'd"
  SplitRef :: "string \<Rightarrow> string \<times> string \<times> string"
  RefWithTags :: "Image \<Rightarrow> string"
  mappingRefs :: "task \<Rightarrow> string \<Rightarrow> string \<Rightarrow> mapping \<Rightarrow> string \<times> string"
  refreshAuth :: "Location \<Rightarrow> 'd \<Rightarrow> (err option \<times> string) \<times> 'd"
  ensureTargetExists :: "task \<Rightarrow> Location \<Rightarrow> string \<Rightarrow> 'd \<Rightarrow> err option \<times> 'd"

text \<open>
  The state: the outside, the Image objects allocated so far (addresses below
  \<open>allocated\<close>), the Location objects, and the events so far.
\<close>

record 'd world =
  daemon :: 'd
  heap :: "addr \<Rightarrow> Image"
  allocated :: nat
  locs :: "addr \<Rightarrow> Location"
  trace :: "event list"

definition emit :: "event \<Rightarrow> 'd world \<Rightarrow> 'd world" where
  "emit ev w = w\<lparr>trace := trace w @ [ev]\<rparr>"

definition emitted :: "'d world \<Rightarrow> 'd world \<Rightarrow> event list" where
  "emitted w w' = drop (length (trace w)) (trace w')"

subsection \<open>Logging\<close>

definition quoted :: "string \<Rightarrow> string" where
  "quoted s = CHR 0x27 # s @ [CHR 0x27]"

definition LogInfo :: "string \<Rightarrow> 'd world \<Rightarrow> 'd world" where
  "LogInfo msg w = emit (Info msg) w"

definition LogPrintln :: "'d world \<Rightarrow> 'd world" where
  "LogPrintln w = LogInfo [] w"

definition LogError :: "err option \<Rightarrow> 'd world \<Rightarrow> bool \<times> 'd world" where
  "LogError e w = (case e of Some m \<Rightarrow> (True, emit (Error m) w) | None \<Rightarrow> (False, w))"

subsection \<open>Image objects\<close>

text \<open>
  Modelled from the spec: \<open>Image.Ref\<close> is in package \<open>docker\<close>, which is not part of the
  sources at hand; the spec says that an Image's full reference is always \<open>Repo/Path[:Tag]\<close>.
\<close>

definition Ref :: "Image \<Rightarrow> string" where
  "Ref img = Repo img @ ''/'' @ Path img"

definition new_Image :: "Image \<Rightarrow> 'd world \<Rightarrow> addr \<times> 'd world" where
  "new_Image img w =
     (allocated w, w\<lparr>heap := (heap w)(allocated w := img), allocated := Suc (allocated w)\<rparr>)"

fun new_Images :: "Image list \<Rightarrow> 'd world \<Rightarrow> addr list \<times> 'd world" where
  "new_Images [] w = ([], w)"
| "new_Images (img # imgs) w =
     (case new_Image img w of (p, w1) \<Rightarrow>
        (case new_Images imgs w1 of (ps, w2) \<Rightarrow> (p # ps, w2)))"

subsection \<open>The calls of the client\<close>

definition pull :: "'d env \<Rightarrow> string \<Rightarrow> string \<Rightarrow> bool \<Rightarrow> bool \<Rightarrow> 'd world \<Rightarrow> err option \<times> 'd world" where
  "pull env ref auth allTags verbose w =
     (case PullImage env ref allTags auth verbose (daemon w) of (e, d) \<Rightarrow>
        (e, emit (EvPullImage ref allTags auth verbose e) (w\<lparr>daemon := d\<rparr>)))"

text \<open>
  \<open>ListImages\<close> hands back pointers to Image objects: the objects it answers are allocated
  at fresh addresses, in the order of the slice.
\<close>

definition list :: "'d env \<Rightarrow> string \<Rightarrow> 'd world \<Rightarrow> (addr list \<times> err option) \<times> 'd world" where
  "list env ref w =
     (case ListImages env ref (daemon w) of ((imgs, e), d) \<Rightarrow>
        (case new_Images imgs (w\<lparr>daemon := d\<rparr>) of (ps, w1) \<Rightarrow>
           ((ps, e), emit (EvListImages ref imgs e) w1)))"

definition TagImage_call :: "'d env \<Rightarrow> string \<Rightarrow> string \<Rightarrow> 'd world \<Rightarrow> err option \<times> 'd world" where
  "TagImage_call env ident ref w =
     (case TagImage env ident ref (daemon w) of (e, d) \<Rightarrow>
        (e, emit (EvTagImage ident ref e) (w\<lparr>daemon := d\<rparr>)))"

definition push :: "'d env \<Rightarrow> string \<Rightarrow> string \<Rightarrow> bool \<Rightarrow> 'd world \<Rightarrow> err option \<times> 'd world" where
  "push env ref auth verbose w =
     (case PushImage env ref True auth verbose (daemon w) of (e, d) \<Rightarrow>
        (e, emit (EvPushImage ref True auth verbose e) (w\<lparr>daemon := d\<rparr>)))"

subsection \<open>Sync: pull, list, tag, push\<close>

text \<open>The loop of \<open>Sync\<close> that pulls one tag after the other; it returns at the first failure.\<close>

fun pull_tags :: "'d env \<Rightarrow> string \<Rightarrow> string \<Rightarrow> bool \<Rightarrow> string list \<Rightarrow> 'd world \<Rightarrow> err option \<times> 'd world" where
  "pull_tags env srcRef srcAuth verbose [] w = (None, w)"
| "pull_tags env srcRef srcAuth verbose (t # tags) w =
     (let srcRefTagged = srcRef @ '':'' @ t in
      case pull env srcRefTagged srcAuth False verbose w of
        (Some e, w1) \<Rightarrow>
          (Some (''error pulling source image '' @ quoted srcRefTagged @ '': '' @ e), w1)
      | (None, w1) \<Rightarrow> pull_tags env srcRef srcAuth verbose tags w1)"

text \<open>
  The loop that lists one tag after the other: a failure is logged, and whatever the call
  answered is appended to \<open>srcImages\<close>.
\<close>

fun list_tags :: "'d env \<Rightarrow> string \<Rightarrow> string list \<Rightarrow> addr list \<Rightarrow> 'd world \<Rightarrow> addr list \<times> 'd world" where
  "list_tags env srcRef [] srcImages w = (srcImages, w)"
| "list_tags env srcRef (t # tags) srcImages w =
     (let srcRefTagged = srcRef @ '':'' @ t in
      case list env srcRefTagged w of
        ((srcImageTagged, e), w1) \<Rightarrow>
          (let w2 = (case e of
                       Some m \<Rightarrow> snd (LogError
                         (Some (''error listing source image '' @ quoted srcRefTagged @ '': '' @ m)) w1)
                     | None \<Rightarrow> w1)
           in list_tags env srcRef tags (srcImages @ srcImageTagged) w2))"

fun log_images :: "'d env \<Rightarrow> addr list \<Rightarrow> 'd world \<Rightarrow> 'd world" where
  "log_images env [] w = w"
| "log_images env (img # srcImages) w =
     log_images env srcImages (LogInfo ('' - '' @ RefWithTags env (heap w img)) w)"

text \<open>The inner loop of \<open>tag\<close>, over the tags of one image.\<close>

fun tag_tags :: "'d env \<Rightarrow> addr \<Rightarrow> addr \<Rightarrow> string list \<Rightarrow> 'd world \<Rightarrow> err option \<times> 'd world" where
  "tag_tags env img tagged [] w = (None, w)"
| "tag_tags env img tagged (t # ts) w =
     (case TagImage_call env (ID (heap w img)) (Ref (heap w tagged) @ '':'' @ t) w of
        (Some e, w1) \<Rightarrow> (Some e, w1)
      | (None, w1) \<Rightarrow> tag_tags env img tagged ts w1)"

text \<open>The outer loop of \<open>tag\<close>, over the images; on a failure it returns \<open>nil, err\<close>.\<close>

fun tag_images :: "'d env \<Rightarrow> string \<Rightarrow> string \<Rightarrow> addr list \<Rightarrow> addr list \<Rightarrow> 'd world \<Rightarrow> (addr list \<times> err option) \<times> 'd world" where
  "tag_images env targetRepo targetPath [] taggedImages w = ((taggedImages, None), w)"
| "tag_images env targetRepo targetPath (img # images) taggedImages w =
     (case new_Image \<lparr>ID = ID (heap w img), Repo = targetRepo, Path = targetPath,
                       Tags = Image.Tags (heap w img)\<rparr> w of
        (tagged, w1) \<Rightarrow>
          (case tag_tags env img tagged (Image.Tags (heap w1 img)) w1 of
             (Some e, w2) \<Rightarrow> (([], Some e), w2)
           | (None, w2) \<Rightarrow>
               tag_images env targetRepo targetPath images (taggedImages @ [tagged]) w2))"

definition tag :: "'d env \<Rightarrow> addr list \<Rightarrow> string \<Rightarrow> 'd world \<Rightarrow> (addr list \<times> err option) \<times> 'd world" where
  "tag env images targetRef w =
     (case SplitRef env targetRef of (targetRepo, targetPath, _) \<Rightarrow>
        tag_images env targetRepo targetPath images [] w)"

text \<open>The first half of \<open>Sync\<close>: the pulls.\<close>

definition Sync_pull :: "'d env \<Rightarrow> string \<Rightarrow> string \<Rightarrow> string list \<Rightarrow> bool \<Rightarrow> 'd world \<Rightarrow> err option \<times> 'd world" where
  "Sync_pull env srcRef srcAuth tags verbose w =
     (if length tags = 0 then
        (case pull env srcRef srcAuth True verbose w of
           (Some e, w1) \<Rightarrow> (Some (''error pulling source image '' @ quoted srcRef @ '': '' @ e), w1)
         | (None, w1) \<Rightarrow> (None, w1))
      else pull_tags env srcRef srcAuth verbose tags w)"

text \<open>The enumeration: \<open>srcImages\<close> starts as the nil slice.\<close>

definition Sync_list :: "'d env \<Rightarrow> string \<Rightarrow> string list \<Rightarrow> 'd world \<Rightarrow> addr list \<times> 'd world" where
  "Sync_list env srcRef tags w =
     (if length tags = 0 then
        (case list env srcRef w of
           ((srcImages, e), w1) \<Rightarrow>
             (srcImages,
              (case e of
                 Some m \<Rightarrow> snd (LogError
                   (Some (''error listing all tags of source image '' @ quoted srcRef @ '': '' @ m)) w1)
               | None \<Rightarrow> w1)))
      else list_tags env srcRef tags [] w)"

definition Sync :: "'d env \<Rightarrow> string \<Rightarrow> string \<Rightarrow> string \<Rightarrow> string \<Rightarrow> string list \<Rightarrow> bool \<Rightarrow> 'd world \<Rightarrow> err option \<times> 'd world" where
  "Sync env srcRef srcAuth trgtRef trgtAuth tags verbose w =
     (case Sync_pull env srcRef srcAuth tags verbose
             (LogInfo (''pulling source image '' @ quoted srcRef) w) of
        (Some e, w1) \<Rightarrow> (Some e, w1)
      | (None, w1) \<Rightarrow>
          (case Sync_list env srcRef tags (LogInfo ''relevant tags'' w1) of
             (srcImages, w2) \<Rightarrow>
               (case tag env srcImages trgtRef
                       (LogInfo (''setting tags for target image '' @ quoted trgtRef)
                          (log_images env srcImages w2)) of
                  ((_, Some e), w3) \<Rightarrow> (Some (''error setting tags: '' @ e), w3)
                | ((_, None), w3) \<Rightarrow>
                    (case push env trgtRef trgtAuth verbose
                            (LogInfo (''pushing target image '' @ quoted trgtRef) w3) of
                       (Some e, w4) \<Rightarrow> (Some (''error pushing target image: '' @ e), w4)
                     | (None, w4) \<Rightarrow> (None, w4)))))"

subsection \<open>SyncTask: one task, mapping by mapping\<close>

text \<open>
  \<open>refreshAuth\<close> replaces the credential of the Location object in place; the later reads
  of \<open>t.Source.Auth\<close> and \<open>t.Target.Auth\<close> see it.
\<close>

definition refreshAuth_call :: "'d env \<Rightarrow> addr \<Rightarrow> 'd world \<Rightarrow> err option \<times> 'd world" where
  "refreshAuth_call env p w =
     (case refreshAuth env (locs w p) (daemon w) of ((e, a), d) \<Rightarrow>
        (e, emit (EvRefreshAuth p e)
              (w\<lparr>daemon := d, locs := (locs w)(p := (locs w p)\<lparr>Auth := a\<rparr>)\<rparr>)))"

definition ensureTargetExists_call :: "'d env \<Rightarrow> task \<Rightarrow> string \<Rightarrow> 'd world \<Rightarrow> err option \<times> 'd world" where
  "ensureTargetExists_call env t trgt w =
     (case ensureTargetExists env t (locs w (Target t)) trgt (daemon w) of (e, d) \<Rightarrow>
        (e, emit (EvEnsureTargetExists trgt e) (w\<lparr>daemon := d\<rparr>)))"

text \<open>The body of the loop over \<open>t.Mappings\<close>.\<close>

definition SyncTask_mapping :: "'d env \<Rightarrow> task \<Rightarrow> mapping \<Rightarrow> 'd world \<Rightarrow> 'd world" where
  "SyncTask_mapping env t m w =
     (let w1 = LogInfo (''mapping '' @ quoted (From m) @ '' to '' @ quoted (To m)) w in
      case mappingRefs env t (Registry (locs w1 (Source t))) (Registry (locs w1 (Target t))) m of
        (src, trgt) \<Rightarrow>
          (case refreshAuth_call env (Source t) w1 of (e1, w2) \<Rightarrow>
          (case refreshAuth_call env (Target t) (snd (LogError e1 w2)) of (e2, w3) \<Rightarrow>
          (case ensureTargetExists_call env t trgt (snd (LogError e2 w3)) of (e3, w4) \<Rightarrow>
          (let w5 = snd (LogError e3 w4);
               srcAuth = Auth (locs w5 (Source t));
               trgtAuth = Auth (locs w5 (Target t))
           in case Sync env src srcAuth trgt trgtAuth (mapping.Tags m) (Verbose t) w5 of
                (e4, w6) \<Rightarrow>
                  snd (LogError e4
                    (emit (EvSync src srcAuth trgt trgtAuth (mapping.Tags m) (Verbose t) e4) w6)))))))"

fun SyncTask_mappings :: "'d env \<Rightarrow> task \<Rightarrow> mapping list \<Rightarrow> 'd world \<Rightarrow> 'd world" where
  "SyncTask_mappings env t [] w = w"
| "SyncTask_mappings env t (m # ms) w = SyncTask_mappings env t ms (SyncTask_mapping env t m w)"

definition SyncTask :: "'d env \<Rightarrow> task \<Rightarrow> 'd world \<Rightarrow> 'd world" where
  "SyncTask env t w =
     (let w1 = emit (EvSyncTask t) w;
          w2 = LogInfo (''syncing task '' @ quoted (Name t) @ '': ''
                          @ quoted (Registry (locs w1 (Source t))) @ '' --> ''
                          @ quoted (Registry (locs w1 (Target t)))) w1
      in LogPrintln (SyncTask_mappings env t (Mappings t) w2))"

subsection \<open>SyncFromConfig: one-off tasks, then the tick loop\<close>

text \<open>\<open>time.Second\<close>, a \<open>time.Duration\<close>: nanoseconds.\<close>

definition Second :: int where
  "Second = 1000000000"

definition Ping_call :: "'d env \<Rightarrow> int \<Rightarrow> int \<Rightarrow> 'd world \<Rightarrow> err option \<times> 'd world" where
  "Ping_call env attempts sleep w =
     (case Ping env attempts sleep (daemon w) of (e, d) \<Rightarrow>
        (e, emit (EvPing attempts sleep e) (w\<lparr>daemon := d\<rparr>)))"

text \<open>
  Modelled from the spec: \<open>task.startTicking\<close> is not part of the sources at hand; the
  spec says that it starts an independent timer that, on each tick, submits the task onto the
  one shared queue. Here the call is an event, and what the timers submit is the list
  \<open>ticks\<close> that \<open>SyncFromConfig\<close> receives from the channel.
\<close>

definition startTicking :: "task \<Rightarrow> 'd world \<Rightarrow> 'd world" where
  "startTicking t w = emit (EvStartTicking t) w"

fun one_off_tasks :: "'d env \<Rightarrow> task list \<Rightarrow> 'd world \<Rightarrow> 'd world" where
  "one_off_tasks env [] w = w"
| "one_off_tasks env (t # ts) w =
     one_off_tasks env ts (if Interval t = 0 then SyncTask env t w else w)"

fun periodic_tasks :: "task list \<Rightarrow> bool \<Rightarrow> 'd world \<Rightarrow> bool \<times> 'd world" where
  "periodic_tasks [] ticking w = (ticking, w)"
| "periodic_tasks (t # ts) ticking w =
     (if Interval t > 0 then periodic_tasks ts True (startTicking t w)
      else periodic_tasks ts ticking w)"

text \<open>
  \<open>SyncFromConfig\<close> either returns an error value or is still in its loop, blocked on the
  channel, when the ticks it was given are used up.
\<close>

datatype outcome = Returned "err option" | Waiting

text \<open>
  The loop \<open>for ticking\<close>: the flag is never reset, so the loop has no exit. Each round
  writes its three lines and receives the next task from the channel.
\<close>

fun tick_loop :: "'d env \<Rightarrow> task list \<Rightarrow> 'd world \<Rightarrow> outcome \<times> 'd world" where
  "tick_loop env [] w =
     (Waiting, LogPrintln (LogInfo ''waiting for next sync task...'' (LogPrintln w)))"
| "tick_loop env (t # ticks) w =
     tick_loop env ticks
       (SyncTask env t (LogPrintln (LogInfo ''waiting for next sync task...'' (LogPrintln w))))"

definition SyncFromConfig :: "'d env \<Rightarrow> syncConfig \<Rightarrow> task list \<Rightarrow> 'd world \<Rightarrow> outcome \<times> 'd world" where
  "SyncFromConfig env conf ticks w =
     (let w1 = LogInfo ''pinging Docker daemon...'' (LogPrintln w) in
      case Ping_call env 30 (10 * Second) w1 of
        (e, w2) \<Rightarrow>
          (let w3 = (if e \<noteq> None then snd (LogError e w2) else LogInfo ''ok'' w2);
               w4 = one_off_tasks env (Tasks conf) w3
           in case periodic_tasks (Tasks conf) False w4 of
                (ticking, w5) \<Rightarrow>
                  (if ticking then tick_loop env ticks w5
                   else (Returned None, LogInfo ''all done'' w5))))"

subsection \<open>Reading a trace\<close>

fun is_pull :: "event \<Rightarrow> bool" where
  "is_pull (EvPullImage _ _ _ _ _) = True"
| "is_pull _ = False"

fun is_list :: "event \<Rightarrow> bool" where
  "is_list (EvListImages _ _ _) = True"
| "is_list _ = False"

fun is_tag :: "event \<Rightarrow> bool" where
  "is_tag (EvTagImage _ _ _) = True"
| "is_tag _ = False"

fun is_push :: "event \<Rightarrow> bool" where
  "is_push (EvPushImage _ _ _ _ _) = True"
| "is_push _ = False"

fun is_error :: "event \<Rightarrow> bool" where
  "is_error (Error _) = True"
| "is_error _ = False"

text \<open>The error a call answered, if any.\<close>

fun answer :: "event \<Rightarrow> err option" where
  "answer (EvPing _ _ e) = e"
| "answer (EvPullImage _ _ _ _ e) = e"
| "answer (EvListImages _ _ e) = e"
| "answer (EvTagImage _ _ e) = e"
| "answer (EvPushImage _ _ _ _ e) = e"
| "answer (EvRefreshAuth _ e) = e"
| "answer (EvEnsureTargetExists _ e) = e"
| "answer (EvSync _ _ _ _ _ _ e) = e"
| "answer _ = None"

definition failed :: "event \<Rightarrow> bool" where
  "failed ev = (answer ev \<noteq> None)"

text \<open>No call of a kind failed; some call of a kind failed.\<close>

definition no_failed :: "(event \<Rightarrow> bool) \<Rightarrow> event list \<Rightarrow> bool" where
  "no_failed kind evs = (\<forall>ev \<in> set evs. kind ev \<longrightarrow> \<not> failed ev)"

definition some_failed :: "(event \<Rightarrow> bool) \<Rightarrow> event list \<Rightarrow> bool" where
  "some_failed kind evs = (\<exists>ev \<in> set evs. kind ev \<and> failed ev)"

fun list_ref :: "event \<Rightarrow> string" where
  "list_ref (EvListImages ref _ _) = ref"
| "list_ref _ = []"

fun images_of :: "event \<Rightarrow> Image list" where
  "images_of (EvListImages _ imgs _) = imgs"
| "images_of _ = []"

text \<open>All the images that the list calls of a trace answered, in order.\<close>

definition listed :: "event list \<Rightarrow> Image list" where
  "listed evs = concat (map images_of evs)"

subsection \<open>The events a run is made of\<close>

text \<open>
  Calls made one after the other until the first failure: the first \<open>k\<close> succeed, and
  call \<open>k\<close> answers the error \<open>e\<close> if there is one.
\<close>

definition attempts :: "('a \<Rightarrow> err option \<Rightarrow> event) \<Rightarrow> 'a list \<Rightarrow> nat \<Rightarrow> err option \<Rightarrow> event list" where
  "attempts mk xs k e =
     map (\<lambda>x. mk x None) (take k xs) @ (if e = None then [] else [mk (xs ! k) e])"

definition stopped :: "'a list \<Rightarrow> nat \<Rightarrow> err option \<Rightarrow> bool" where
  "stopped xs k e = (if e = None then k = length xs else k < length xs)"

text \<open>The messages built by \<open>fmt.Errorf\<close>.\<close>

definition pull_error :: "string \<Rightarrow> err \<Rightarrow> err" where
  "pull_error ref e = ''error pulling source image '' @ quoted ref @ '': '' @ e"

definition list_error :: "string \<Rightarrow> err \<Rightarrow> err" where
  "list_error ref e = ''error listing source image '' @ quoted ref @ '': '' @ e"

definition list_all_error :: "string \<Rightarrow> err \<Rightarrow> err" where
  "list_all_error ref e = ''error listing all tags of source image '' @ quoted ref @ '': '' @ e"

definition list_events :: "(string \<Rightarrow> err \<Rightarrow> err) \<Rightarrow> string \<Rightarrow> Image list \<times> err option \<Rightarrow> event list" where
  "list_events msg ref a =
     EvListImages ref (fst a) (snd a) # (case snd a of None \<Rightarrow> [] | Some m \<Rightarrow> [Error (msg ref m)])"

text \<open>The line that \<open>Sync\<close> logs after a list call that failed.\<close>

definition list_failure_line :: "string list \<Rightarrow> event \<Rightarrow> event list" where
  "list_failure_line tags ev =
     (case answer ev of
        None \<Rightarrow> []
      | Some m \<Rightarrow> [Error ((if tags = [] then list_all_error else list_error) (list_ref ev) m)])"

text \<open>The tagging calls that \<open>tag\<close> makes for a list of images: image by image, tag by tag.\<close>

definition tag_targets :: "string \<Rightarrow> string \<Rightarrow> Image list \<Rightarrow> (string \<times> string) list" where
  "tag_targets targetRepo targetPath imgs =
     concat (map (\<lambda>img. map (\<lambda>t. (ID img, targetRepo @ ''/'' @ targetPath @ '':'' @ t)) (Image.Tags img)) imgs)"

definition tag_event :: "string \<times> string \<Rightarrow> err option \<Rightarrow> event" where
  "tag_event x = EvTagImage (fst x) (snd x)"

definition retagged :: "string \<Rightarrow> string \<Rightarrow> Image \<Rightarrow> Image" where
  "retagged targetRepo targetPath img =
     \<lparr>ID = ID img, Repo = targetRepo, Path = targetPath, Tags = Image.Tags img\<rparr>"

definition source_refs :: "string \<Rightarrow> string list \<Rightarrow> string list" where
  "source_refs srcRef tags = (if tags = [] then [srcRef] else map (\<lambda>t. srcRef @ '':'' @ t) tags)"

definition pull_event :: "string \<Rightarrow> bool \<Rightarrow> string list \<Rightarrow> string \<Rightarrow> err option \<Rightarrow> event" where
  "pull_event srcAuth verbose tags = (\<lambda>ref. EvPullImage ref (tags = []) srcAuth verbose)"

definition listing :: "string list \<Rightarrow> string list \<Rightarrow> (Image list \<times> err option) list \<Rightarrow> event list" where
  "listing tags refs answers =
     concat (map (\<lambda>(ref, a). list_events (if tags = [] then list_all_error else list_error) ref a)
               (zip refs answers))"

definition image_lines :: "'d env \<Rightarrow> Image list \<Rightarrow> event list" where
  "image_lines env imgs = map (\<lambda>img. Info ('' - '' @ RefWithTags env img)) imgs"

definition target_of :: "'d env \<Rightarrow> string \<Rightarrow> string \<times> string" where
  "target_of env trgtRef = (case SplitRef env trgtRef of (targetRepo, targetPath, _) \<Rightarrow> (targetRepo, targetPath))"

subsection \<open>Reading the trace of a task and of the scheduler\<close>

text \<open>
  The steps of \<open>SyncTask\<close> for one mapping, without what they answered: refreshing the
  credential of a Location, ensuring that the target exists, and the call of \<open>Sync\<close>.
\<close>

datatype step = Refresh addr | Ensure string | Synced string string "string list" bool

fun step_of :: "event \<Rightarrow> step list" where
  "step_of (EvRefreshAuth p _) = [Refresh p]"
| "step_of (EvEnsureTargetExists trgt _) = [Ensure trgt]"
| "step_of (EvSync src _ trgt _ tags verbose _) = [Synced src trgt tags verbose]"
| "step_of _ = []"

definition steps :: "event list \<Rightarrow> step list" where
  "steps evs = concat (map step_of evs)"

text \<open>Every step that failed is followed at once by the line that logs its error.\<close>

fun follows :: "event \<Rightarrow> event list \<Rightarrow> bool" where
  "follows x [] = False"
| "follows x (ev # evs) = (ev = x)"

fun errors_logged :: "event list \<Rightarrow> bool" where
  "errors_logged [] = True"
| "errors_logged (ev # evs) =
     ((case answer ev of
         Some m \<Rightarrow> step_of ev \<noteq> [] \<longrightarrow> follows (Error m) evs
       | None \<Rightarrow> True)
      \<and> errors_logged evs)"

text \<open>The events of the scheduler: the ping, the start of a ticker, the run of a task.\<close>

fun is_sched :: "event \<Rightarrow> bool" where
  "is_sched (EvPing _ _ _) = True"
| "is_sched (EvSyncTask _) = True"
| "is_sched (EvStartTicking _) = True"
| "is_sched _ = False"

text \<open>The events that \<open>Sync\<close> itself emits.\<close>

fun sync_event :: "event \<Rightarrow> bool" where
  "sync_event (Info _) = True"
| "sync_event (Error _) = True"
| "sync_event (EvPullImage _ _ _ _ _) = True"
| "sync_event (EvListImages _ _ _) = True"
| "sync_event (EvTagImage _ _ _) = True"
| "sync_event (EvPushImage _ _ _ _ _) = True"
| "sync_event _ = False"

definition grows :: "'d world \<Rightarrow> 'd world \<Rightarrow> bool" where
  "grows w w' = (\<exists>evs. trace w' = trace w @ evs)"

definition line :: "err option \<Rightarrow> event list" where
  "line e = (case e of None \<Rightarrow> [] | Some m \<Rightarrow> [Error m])"

text \<open>The steps that \<open>SyncTask\<close> takes for the mapping \<open>m\<close> of the task \<open>t\<close>.\<close>

definition mapping_steps :: "'d env \<Rightarrow> task \<Rightarrow> 'd world \<Rightarrow> mapping \<Rightarrow> step list" where
  "mapping_steps env t w m =
     (case mappingRefs env t (Registry (locs w (Source t))) (Registry (locs w (Target t))) m of
        (src, trgt) \<Rightarrow>
          [Refresh (Source t), Refresh (Target t), Ensure trgt,
           Synced src trgt (mapping.Tags m) (Verbose t)])"

text \<open>The tasks of a configuration that recur, and those that run once.\<close>

definition recurring :: "syncConfig \<Rightarrow> task list" where
  "recurring conf = filter (\<lambda>t. 0 < Interval t) (Tasks conf)"

definition one_off :: "syncConfig \<Rightarrow> task list" where
  "one_off conf = filter (\<lambda>t. Interval t = 0) (Tasks conf)"

subsection \<open>A concrete environment\<close>

text \<open>
  A registry pair to run the model on: the client refuses the pulls, lists and tags whose
  reference is in the given lists, and answers one image with the tags \<open>a\<close> and \<open>b\<close> to
  every list call it accepts; the credential service has no token for \<open>dst.io\<close>.
\<close>

definition demo_env :: "string list \<Rightarrow> string list \<Rightarrow> string list \<Rightarrow> bool \<Rightarrow> unit env" where
  "demo_env bad_pulls bad_lists bad_tags push_ok = \<lparr>
     Ping = (\<lambda>attempts sleep d. (None, d)),
     PullImage = (\<lambda>ref allTags auth verbose d.
        (if ref \<in> set bad_pulls then Some ''pull refused'' else None, d)),
     ListImages = (\<lambda>ref d.
        (if ref \<in> set bad_lists then ([], Some ''list refused'')
         else ([\<lparr>ID = ''sha-'' @ ref, Repo = ''src.io'', Path = ''app'', Tags = [''a'', ''b'']\<rparr>], None), d)),
     TagImage = (\<lambda>ident ref d. (if ref \<in> set bad_tags then Some ''tag refused'' else None, d)),
     PushImage = (\<lambda>ref allTags auth verbose d. (if push_ok then None else Some ''push refused'', d)),
     SplitRef = (\<lambda>ref. (''dst.io'', ''app'', [])),
     RefWithTags = Ref,
     mappingRefs = (\<lambda>t s g m. (s @ ''/'' @ From m, g @ ''/'' @ To m)),
     refreshAuth = (\<lambda>l d. ((if Registry l = ''dst.io'' then Some ''no token'' else None, ''secret''), d)),
     ensureTargetExists = (\<lambda>t l ref d. (None, d)) \<rparr>"

definition w0 :: "unit world" where
  "w0 = \<lparr>daemon = (), heap = (\<lambda>a. \<lparr>ID = [], Repo = [], Path = [], Tags = []\<rparr>), allocated = 0,
         locs = (\<lambda>p. \<lparr>Registry = (if p = 0 then ''src.io'' else ''dst.io''), Auth = []\<rparr>),
         trace = []\<rparr>"

text \<open>The same world after two Image objects were allocated, at the addresses 0 and 1.\<close>

definition w2 :: "unit world" where
  "w2 = snd (new_Images
     [\<lparr>ID = ''sha-1'', Repo = ''src.io'', Path = ''app'', Tags = [''a'', ''b'']\<rparr>,
      \<lparr>ID = ''sha-2'', Repo = ''src.io'', Path = ''app'', Tags = [''c'']\<rparr>] w0)"

text \<open>
  Tasks and configurations over the two Locations of \<open>w0\<close>, and an environment in which
  the daemon cannot be reached, no repository can be created and no pull or push succeeds.
\<close>

definition demo_task :: task where
  "demo_task = \<lparr>Name = ''mirror'', Interval = 0, Source = 0, Target = 1,
       Mappings = [\<lparr>From = ''app'', To = ''app'', Tags = [''1.0'']\<rparr>,
                   \<lparr>From = ''web'', To = ''web'', Tags = []\<rparr>],
       Verbose = False\<rparr>"

definition one_task :: task where
  "one_task = \<lparr>Name = ''single'', Interval = 0, Source = 0, Target = 1,
       Mappings = [\<lparr>From = ''app'', To = ''app'', Tags = []\<rparr>],
       Verbose = False\<rparr>"

definition hourly_task :: task where
  "hourly_task = \<lparr>Name = ''hourly'', Interval = 3600, Source = 0, Target = 1,
       Mappings = [\<lparr>From = ''web'', To = ''web'', Tags = [''stable'']\<rparr>],
       Verbose = True\<rparr>"

definition conf_once :: syncConfig where
  "conf_once = \<lparr>Tasks = [demo_task, one_task]\<rparr>"

definition conf_mixed :: syncConfig where
  "conf_mixed = \<lparr>Tasks = [hourly_task, demo_task]\<rparr>"

definition broken_env :: "unit env" where
  "broken_env = (demo_env [''src.io/app'', ''src.io/web''] [] [] False)
     \<lparr>Ping := (\<lambda>n sleep d. (Some ''daemon not reachable'', d)),
      ensureTargetExists := (\<lambda>t l ref d. (Some ''cannot create repository'', d))\<rparr>"

text \<open>
  A client whose list call of \<open>src.io/app:1.1\<close> fails and answers an image all the same.
\<close>

definition stale_env :: "unit env" where
  "stale_env = (demo_env [] [] [] True)
     \<lparr>ListImages := (\<lambda>ref d.
        (if ref = ''src.io/app:1.1''
         then ([\<lparr>ID = ''sha-stale'', Repo = ''src.io'', Path = ''app'', Tags = [''old'']\<rparr>],
               Some ''list refused'')
         else ([\<lparr>ID = ''sha-'' @ ref, Repo = ''src.io'', Path = ''app'', Tags = [''a'']\<rparr>], None), d))\<rparr>"

section \<open>Traces of the loops\<close>

lemma emit_simps [simp]:
  "trace (emit ev w) = trace w @ [ev]" "heap (emit ev w) = heap w"
  "allocated (emit ev w) = allocated w" "locs (emit ev w) = locs w" "daemon (emit ev w) = daemon w"
  by (simp_all add: emit_def)

lemma LogInfo_simps [simp]:
  "trace (LogInfo msg w) = trace w @ [Info msg]" "heap (LogInfo msg w) = heap w"
  "allocated (LogInfo msg w) = allocated w" "locs (LogInfo msg w) = locs w"
  "daemon (LogInfo msg w) = daemon w"
  by (simp_all add: LogInfo_def)

lemma LogPrintln_simps [simp]:
  "trace (LogPrintln w) = trace w @ [Info []]" "heap (LogPrintln w) = heap w"
  "allocated (LogPrintln w) = allocated w" "locs (LogPrintln w) = locs w"
  "daemon (LogPrintln w) = daemon w"
  by (simp_all add: LogPrintln_def)

lemma LogError_simps [simp]:
  "trace (snd (LogError e w)) = trace w @ (case e of None \<Rightarrow> [] | Some m \<Rightarrow> [Error m])"
  "heap (snd (LogError e w)) = heap w"
  "allocated (snd (LogError e w)) = allocated w" "locs (snd (LogError e w)) = locs w"
  "daemon (snd (LogError e w)) = daemon w"
  by (simp_all add: LogError_def split: option.splits)

lemma pull_frame:
  assumes "pull env ref auth allTags verbose w = (e, w')"
  shows "trace w' = trace w @ [EvPullImage ref allTags auth verbose e]"
    and "heap w' = heap w" and "allocated w' = allocated w" and "locs w' = locs w"
  using assms by (auto simp: pull_def split: prod.splits)

lemma push_frame:
  assumes "push env ref auth verbose w = (e, w')"
  shows "trace w' = trace w @ [EvPushImage ref True auth verbose e]"
    and "heap w' = heap w" and "allocated w' = allocated w" and "locs w' = locs w"
  using assms by (auto simp: push_def split: prod.splits)

lemma TagImage_call_frame:
  assumes "TagImage_call env i ref w = (e, w')"
  shows "trace w' = trace w @ [EvTagImage i ref e]"
    and "heap w' = heap w" and "allocated w' = allocated w" and "locs w' = locs w"
  using assms by (auto simp: TagImage_call_def split: prod.splits)

lemma pull_tags_trace:
  assumes "pull_tags env srcRef srcAuth verbose tags w = (r, w')"
  shows "\<exists>k e. stopped tags k e
           \<and> trace w' = trace w @ attempts (\<lambda>t. EvPullImage (srcRef @ '':'' @ t) False srcAuth verbose) tags k e
           \<and> r = map_option (pull_error (srcRef @ '':'' @ tags ! k)) e"
  using assms
proof (induction tags arbitrary: w)
  case Nil
  then show ?case by (auto simp: stopped_def attempts_def intro!: exI[of _ 0] exI[of _ None])
next
  case (Cons t tags)
  obtain e1 w1 where p: "pull env (srcRef @ '':'' @ t) srcAuth False verbose w = (e1, w1)"
    by (cases "pull env (srcRef @ '':'' @ t) srcAuth False verbose w") auto
  note tr = pull_frame(1)[OF p]
  show ?case
  proof (cases e1)
    case (Some m)
    with Cons.prems p have "r = Some (pull_error (srcRef @ '':'' @ t) m)" "w' = w1"
      by (auto simp: pull_error_def)
    with tr Some show ?thesis
      by (intro exI[of _ 0] exI[of _ "Some m"]) (simp add: stopped_def attempts_def)
  next
    case None
    with Cons.prems p have "pull_tags env srcRef srcAuth verbose tags w1 = (r, w')" by simp
    from Cons.IH[OF this] obtain k e where
      k: "stopped tags k e"
         "trace w' = trace w1 @ attempts (\<lambda>t. EvPullImage (srcRef @ '':'' @ t) False srcAuth verbose) tags k e"
         "r = map_option (pull_error (srcRef @ '':'' @ tags ! k)) e" by blast
    with tr None show ?thesis
      by (intro exI[of _ "Suc k"] exI[of _ e]) (auto simp: stopped_def attempts_def split: option.splits)
  qed
qed

lemma pull_tags_frame:
  assumes "pull_tags env srcRef srcAuth verbose tags w = (r, w')"
  shows "heap w' = heap w \<and> allocated w' = allocated w \<and> locs w' = locs w"
  using assms
proof (induction tags arbitrary: w)
  case Nil
  then show ?case by simp
next
  case (Cons t tags)
  obtain e1 w1 where p: "pull env (srcRef @ '':'' @ t) srcAuth False verbose w = (e1, w1)"
    by (cases "pull env (srcRef @ '':'' @ t) srcAuth False verbose w") auto
  note fr = pull_frame(2-4)[OF p]
  show ?case
  proof (cases e1)
    case (Some m)
    with Cons.prems p have "w' = w1" by auto
    with fr show ?thesis by simp
  next
    case None
    with Cons.prems p have "pull_tags env srcRef srcAuth verbose tags w1 = (r, w')" by simp
    from Cons.IH[OF this] fr show ?thesis by simp
  qed
qed

lemma new_Images_frame:
  assumes "new_Images imgs w = (ps, w')"
  shows "ps = [allocated w ..< allocated w + length imgs]"
    and "allocated w' = allocated w + length imgs"
    and "map (heap w') ps = imgs"
    and "\<forall>a < allocated w. heap w' a = heap w a"
    and "trace w' = trace w" and "locs w' = locs w" and "daemon w' = daemon w"
proof -
  have "ps = [allocated w ..< allocated w + length imgs]
      \<and> allocated w' = allocated w + length imgs
      \<and> map (heap w') ps = imgs
      \<and> (\<forall>a < allocated w. heap w' a = heap w a)
      \<and> trace w' = trace w \<and> locs w' = locs w \<and> daemon w' = daemon w"
    using assms
  proof (induction imgs arbitrary: w ps)
    case Nil
    then show ?case by simp
  next
    case (Cons img imgs)
    define w1 where "w1 = snd (new_Image img w)"
    have w1: "new_Image img w = (allocated w, w1)" "allocated w1 = Suc (allocated w)"
      "heap w1 = (heap w)(allocated w := img)" "trace w1 = trace w" "locs w1 = locs w"
      "daemon w1 = daemon w"
      by (simp_all add: w1_def new_Image_def)
    obtain ps1 where r: "new_Images imgs w1 = (ps1, w')" and ps: "ps = allocated w # ps1"
      using Cons.prems w1(1) by (auto split: prod.splits)
    from Cons.IH[OF r] have ih:
      "ps1 = [allocated w1 ..< allocated w1 + length imgs]"
      "allocated w' = allocated w1 + length imgs"
      "map (heap w') ps1 = imgs"
      "\<forall>a < allocated w1. heap w' a = heap w1 a"
      "trace w' = trace w1" "locs w' = locs w1" "daemon w' = daemon w1" by auto
    have h: "heap w' (allocated w) = img" using ih(4) w1(2,3) by simp
    have fr: "\<forall>a < allocated w. heap w' a = heap w a" using ih(4) w1(2,3) by simp
    have u: "[allocated w ..< allocated w + Suc (length imgs)]
        = allocated w # [Suc (allocated w) ..< Suc (allocated w) + length imgs]"
      by (subst upt_conv_Cons) (simp_all del: upt_Suc)
    have "ps1 = [Suc (allocated w) ..< Suc (allocated w) + length imgs]"
      using ih(1) unfolding w1(2) .
    then have p: "ps = [allocated w ..< allocated w + Suc (length imgs)]"
      using ps u by (simp only:)
    have m: "map (heap w') ps = img # imgs"
      unfolding ps using h ih(3) by simp
    have al: "allocated w' = allocated w + Suc (length imgs)"
      using ih(2) w1(2) by simp
    show ?case using p m al fr ih(5-7) w1(4-6) by (simp del: upt_Suc)
  qed
  then show "ps = [allocated w ..< allocated w + length imgs]"
    and "allocated w' = allocated w + length imgs"
    and "map (heap w') ps = imgs"
    and "\<forall>a < allocated w. heap w' a = heap w a"
    and "trace w' = trace w" and "locs w' = locs w" and "daemon w' = daemon w" by blast+
qed

lemma list_frame:
  assumes "list env ref w = ((ps, e), w')"
  shows "\<exists>imgs. trace w' = trace w @ [EvListImages ref imgs e]
           \<and> ps = [allocated w ..< allocated w']
           \<and> allocated w' = allocated w + length imgs
           \<and> map (heap w') ps = imgs"
    and "\<forall>a < allocated w. heap w' a = heap w a"
    and "locs w' = locs w"
proof -
  obtain imgs d where l: "ListImages env ref (daemon w) = ((imgs, e), d)"
    using assms by (auto simp: list_def split: prod.splits)
  obtain w1 where n: "new_Images imgs (w\<lparr>daemon := d\<rparr>) = (ps, w1)"
    and w': "w' = emit (EvListImages ref imgs e) w1"
    using assms l by (auto simp: list_def split: prod.splits)
  note fr = new_Images_frame[OF n]
  show "\<exists>imgs. trace w' = trace w @ [EvListImages ref imgs e]
           \<and> ps = [allocated w ..< allocated w']
           \<and> allocated w' = allocated w + length imgs
           \<and> map (heap w') ps = imgs"
    using fr w' by (intro exI[of _ imgs]) simp
  show "\<forall>a < allocated w. heap w' a = heap w a" using fr w' by simp
  show "locs w' = locs w" using fr w' by simp
qed

lemma list_tags_trace:
  assumes "list_tags env srcRef tags acc w = (imgs, w')"
  shows "\<exists>answers new. length answers = length tags
           \<and> trace w' = trace w @ concat (map (\<lambda>(t, a). list_events list_error (srcRef @ '':'' @ t) a) (zip tags answers))
           \<and> imgs = acc @ new
           \<and> map (heap w') new = concat (map fst answers)
           \<and> (\<forall>a \<in> set new. allocated w \<le> a \<and> a < allocated w')
           \<and> allocated w \<le> allocated w'
           \<and> (\<forall>a < allocated w. heap w' a = heap w a)
           \<and> locs w' = locs w"
  using assms
proof (induction tags arbitrary: w acc)
  case Nil
  then show ?case by simp
next
  case (Cons t tags)
  let ?ref = "srcRef @ '':'' @ t"
  obtain ps e w1 where l: "list env ?ref w = ((ps, e), w1)"
    by (cases "list env ?ref w") auto
  from list_frame(1)[OF l] obtain imgs1 where l1:
    "trace w1 = trace w @ [EvListImages ?ref imgs1 e]" "ps = [allocated w ..< allocated w1]"
    "allocated w1 = allocated w + length imgs1" "map (heap w1) ps = imgs1" by blast
  note l2 = list_frame(2,3)[OF l]
  define w2 where "w2 = (case e of Some m \<Rightarrow> snd (LogError (Some (list_error ?ref m)) w1) | None \<Rightarrow> w1)"
  have w2: "trace w2 = trace w1 @ (case e of None \<Rightarrow> [] | Some m \<Rightarrow> [Error (list_error ?ref m)])"
    "heap w2 = heap w1" "allocated w2 = allocated w1" "locs w2 = locs w1"
    by (simp_all add: w2_def split: option.splits)
  have rec: "list_tags env srcRef tags (acc @ ps) w2 = (imgs, w')"
    using Cons.prems l by (cases e) (simp_all add: w2_def list_error_def)
  from Cons.IH[OF rec] obtain answers new where ih:
    "length answers = length tags"
    "trace w' = trace w2 @ concat (map (\<lambda>(t, a). list_events list_error (srcRef @ '':'' @ t) a) (zip tags answers))"
    "imgs = (acc @ ps) @ new"
    "map (heap w') new = concat (map fst answers)"
    "\<forall>a \<in> set new. allocated w2 \<le> a \<and> a < allocated w'"
    "allocated w2 \<le> allocated w'"
    "\<forall>a < allocated w2. heap w' a = heap w2 a"
    "locs w' = locs w2" by blast
  have ps_lt: "\<forall>a \<in> set ps. allocated w \<le> a \<and> a < allocated w1" using l1(2) by simp
  have "map (heap w') ps = map (heap w1) ps"
    using ps_lt ih(7) w2(2,3) by simp
  then have m: "map (heap w') (ps @ new) = concat (map fst ((imgs1, e) # answers))"
    using l1(4) ih(4) by simp
  have b: "\<forall>a \<in> set (ps @ new). allocated w \<le> a \<and> a < allocated w'"
    using ps_lt ih(5,6) w2(3) l1(3) by auto
  have f: "\<forall>a < allocated w. heap w' a = heap w a"
    using ih(7) w2(2,3) l1(3) l2(1) by simp
  have tr: "trace w' = trace w @ concat (map (\<lambda>(t, a). list_events list_error (srcRef @ '':'' @ t) a)
                (zip (t # tags) ((imgs1, e) # answers)))"
    using ih(2) w2(1) l1(1) by (simp add: list_events_def cong: option.case_cong)
  show ?case
    apply (rule exI[of _ "(imgs1, e) # answers"])
    apply (rule exI[of _ "ps @ new"])
    using ih(1,3,6,8) m b f tr w2(3,4) l1(3) l2(2) by simp
qed

lemma Sync_list_trace:
  assumes "Sync_list env srcRef tags w = (imgs, w')"
  shows "\<exists>answers. length answers = length (if tags = [] then [srcRef] else map (\<lambda>t. srcRef @ '':'' @ t) tags)
           \<and> trace w' = trace w @ concat (map (\<lambda>(ref, a). list_events (if tags = [] then list_all_error else list_error) ref a)
                 (zip (if tags = [] then [srcRef] else map (\<lambda>t. srcRef @ '':'' @ t) tags) answers))
           \<and> map (heap w') imgs = concat (map fst answers)
           \<and> (\<forall>a \<in> set imgs. a < allocated w')
           \<and> locs w' = locs w"
proof (cases "tags = []")
  case True
  obtain ps e w1 where l: "list env srcRef w = ((ps, e), w1)"
    by (cases "list env srcRef w") auto
  from list_frame(1)[OF l] obtain imgs1 where l1:
    "trace w1 = trace w @ [EvListImages srcRef imgs1 e]" "ps = [allocated w ..< allocated w1]"
    "allocated w1 = allocated w + length imgs1" "map (heap w1) ps = imgs1" by blast
  note l2 = list_frame(2,3)[OF l]
  have i: "imgs = ps" and w': "w' = (case e of Some m \<Rightarrow> snd (LogError (Some (list_all_error srcRef m)) w1) | None \<Rightarrow> w1)"
    using assms True l by (cases e; simp add: Sync_list_def list_all_error_def)+
  have w2: "trace w' = trace w1 @ (case e of None \<Rightarrow> [] | Some m \<Rightarrow> [Error (list_all_error srcRef m)])"
    "heap w' = heap w1" "allocated w' = allocated w1" "locs w' = locs w1"
    by (simp_all add: w' split: option.splits)
  show ?thesis
    apply (rule exI[of _ "[(imgs1, e)]"])
    using True i w2 l1 l2 by (simp add: list_events_def cong: option.case_cong)
next
  case False
  then have "list_tags env srcRef tags [] w = (imgs, w')"
    using assms by (simp add: Sync_list_def)
  from list_tags_trace[OF this] obtain answers new where ih:
    "length answers = length tags"
    "trace w' = trace w @ concat (map (\<lambda>(t, a). list_events list_error (srcRef @ '':'' @ t) a) (zip tags answers))"
    "imgs = [] @ new"
    "map (heap w') new = concat (map fst answers)"
    "\<forall>a \<in> set new. allocated w \<le> a \<and> a < allocated w'"
    "locs w' = locs w" by blast
  have z: "map (\<lambda>(ref, a). list_events list_error ref a) (zip (map (\<lambda>t. srcRef @ '':'' @ t) tags) answers)
         = map (\<lambda>(t, a). list_events list_error (srcRef @ '':'' @ t) a) (zip tags answers)"
    by (simp add: zip_map1 case_prod_unfold)
  show ?thesis
    apply (rule exI[of _ answers])
    using False ih z by simp
qed


lemma log_images_frame:
  "trace (log_images env imgs w) = trace w @ map (\<lambda>a. Info ('' - '' @ RefWithTags env (heap w a))) imgs
   \<and> heap (log_images env imgs w) = heap w \<and> allocated (log_images env imgs w) = allocated w
   \<and> locs (log_images env imgs w) = locs w"
  by (induction imgs arbitrary: w) simp_all

lemma stopped_Nil [simp]: "stopped [] k e \<longleftrightarrow> k = 0 \<and> e = None"
  by (auto simp: stopped_def split: option.splits)

lemma attempts_None: "stopped xs k None \<Longrightarrow> attempts mk xs k None = map (\<lambda>x. mk x None) xs"
  by (simp add: stopped_def attempts_def)

lemma attempts_append_fail:
  "k < length xs \<Longrightarrow> attempts mk (xs @ ys) k (Some e) = attempts mk xs k (Some e)"
  by (simp add: attempts_def nth_append)

lemma attempts_append_ok:
  "attempts mk (xs @ ys) (length xs + k) r = map (\<lambda>x. mk x None) xs @ attempts mk ys k r"
  by (simp add: attempts_def nth_append)

lemma stopped_append_fail: "stopped xs k (Some e) \<Longrightarrow> stopped (xs @ ys) k (Some e)"
  by (simp add: stopped_def)

lemma stopped_append_ok: "stopped ys k r \<Longrightarrow> stopped (xs @ ys) (length xs + k) r"
  by (simp add: stopped_def split: option.splits)

lemma attempts_map:
  "stopped xs k r \<Longrightarrow> attempts mk (map f xs) k r = attempts (\<lambda>x. mk (f x)) xs k r"
  by (auto simp: attempts_def stopped_def take_map split: option.splits)

lemma stopped_map [simp]: "stopped (map f xs) k r = stopped xs k r"
  by (simp add: stopped_def)

lemma tag_tags_trace:
  assumes "tag_tags env img tagged ts w = (r, w')"
  shows "(\<exists>k. stopped ts k r
           \<and> trace w' = trace w @ attempts (\<lambda>t. EvTagImage (ID (heap w img)) (Ref (heap w tagged) @ '':'' @ t)) ts k r)
         \<and> heap w' = heap w \<and> allocated w' = allocated w \<and> locs w' = locs w"
  using assms
proof (induction ts arbitrary: w)
  case Nil
  then show ?case by (simp add: attempts_def)
next
  case (Cons t ts)
  let ?i = "ID (heap w img)" and ?r = "Ref (heap w tagged) @ '':'' @ t"
  obtain e1 w1 where c: "TagImage_call env ?i ?r w = (e1, w1)"
    by (cases "TagImage_call env ?i ?r w") auto
  note fr = TagImage_call_frame[OF c]
  show ?case
  proof (cases e1)
    case (Some m)
    with Cons.prems c have "r = Some m" "w' = w1" by auto
    with fr Some show ?thesis
      by (auto simp: stopped_def attempts_def intro!: exI[of _ 0])
  next
    case None
    with Cons.prems c have "tag_tags env img tagged ts w1 = (r, w')" by simp
    from Cons.IH[OF this] obtain k where k: "stopped ts k r"
      "trace w' = trace w1 @ attempts (\<lambda>t. EvTagImage (ID (heap w1 img)) (Ref (heap w1 tagged) @ '':'' @ t)) ts k r"
      and f: "heap w' = heap w1" "allocated w' = allocated w1" "locs w' = locs w1" by blast
    have "stopped (t # ts) (Suc k) r" using k(1) by (simp add: stopped_def split: option.splits)
    moreover have "trace w' = trace w @ attempts (\<lambda>t. EvTagImage (ID (heap w img)) (Ref (heap w tagged) @ '':'' @ t)) (t # ts) (Suc k) r"
      using k(2) fr None by (simp add: attempts_def)
    ultimately show ?thesis using f fr by auto
  qed
qed

lemma tag_images_trace:
  assumes "tag_images env targetRepo targetPath images acc w = ((tagged, r), w')"
    and "\<forall>a \<in> set images. a < allocated w"
  shows "(\<exists>k. stopped (tag_targets targetRepo targetPath (map (heap w) images)) k r
            \<and> trace w' = trace w @ attempts tag_event (tag_targets targetRepo targetPath (map (heap w) images)) k r)
         \<and> (\<forall>a < allocated w. heap w' a = heap w a)
         \<and> allocated w \<le> allocated w'
         \<and> locs w' = locs w
         \<and> (case r of
               None \<Rightarrow> (\<exists>new. tagged = acc @ new \<and> length new = length images
                          \<and> (\<forall>a \<in> set new. allocated w \<le> a \<and> a < allocated w')
                          \<and> distinct new
                          \<and> map (heap w') new = map (\<lambda>a. retagged targetRepo targetPath (heap w a)) images)
             | Some e \<Rightarrow> tagged = [])"
  using assms
proof (induction images arbitrary: w acc)
  case Nil
  then show ?case by (simp add: tag_targets_def attempts_def)
next
  case (Cons img images)
  let ?new = "retagged targetRepo targetPath (heap w img)"
  define w1 where "w1 = snd (new_Image ?new w)"
  have w1: "new_Image ?new w = (allocated w, w1)" "allocated w1 = Suc (allocated w)"
    "heap w1 = (heap w)(allocated w := ?new)" "trace w1 = trace w" "locs w1 = locs w"
    by (simp_all add: w1_def new_Image_def)
  have img: "img < allocated w" and rest: "\<forall>a \<in> set images. a < allocated w"
    using Cons.prems(2) by simp_all
  have src: "heap w1 img = heap w img" using img w1(3) by simp
  have tgd: "heap w1 (allocated w) = ?new" using w1(3) by simp
  let ?ts = "Image.Tags (heap w img)"
  obtain r1 w2 where t: "tag_tags env img (allocated w) ?ts w1 = (r1, w2)"
    by (cases "tag_tags env img (allocated w) ?ts w1") auto
  from tag_tags_trace[OF t] obtain k1 where k1: "stopped ?ts k1 r1"
    "trace w2 = trace w1 @ attempts (\<lambda>t. EvTagImage (ID (heap w1 img)) (Ref (heap w1 (allocated w)) @ '':'' @ t)) ?ts k1 r1"
    and f1: "heap w2 = heap w1" "allocated w2 = allocated w1" "locs w2 = locs w1" by blast
  let ?here = "map (\<lambda>t. (ID (heap w img), targetRepo @ ''/'' @ targetPath @ '':'' @ t)) ?ts"
  let ?rest = "tag_targets targetRepo targetPath (map (heap w) images)"
  have tt: "tag_targets targetRepo targetPath (map (heap w) (img # images)) = ?here @ ?rest"
    by (simp add: tag_targets_def)
  have ev1: "attempts (\<lambda>t. EvTagImage (ID (heap w1 img)) (Ref (heap w1 (allocated w)) @ '':'' @ t)) ?ts k1 r1
      = attempts tag_event ?here k1 r1"
    using k1(1) by (simp add: attempts_map src tgd tag_event_def Ref_def retagged_def)
  have unfold: "tag_images env targetRepo targetPath (img # images) acc w
      = (case r1 of Some e \<Rightarrow> (([], Some e), w2)
         | None \<Rightarrow> tag_images env targetRepo targetPath images (acc @ [allocated w]) w2)"
    using w1(1) t src by (cases r1) (simp_all add: retagged_def)
  show ?case
  proof (cases r1)
    case (Some e)
    with unfold Cons.prems(1) have res: "tagged = []" "r = Some e" "w' = w2" by simp_all
    have "stopped (?here @ ?rest) k1 (Some e)"
      using k1(1) Some by (intro stopped_append_fail) simp
    moreover have "attempts tag_event (?here @ ?rest) k1 (Some e) = attempts tag_event ?here k1 (Some e)"
      using k1(1) Some by (intro attempts_append_fail) (simp add: stopped_def)
    ultimately show ?thesis
      using res Some k1(2) ev1 w1 f1 tt by (auto intro!: exI[of _ k1])
  next
    case None
    with unfold Cons.prems(1) have rec:
      "tag_images env targetRepo targetPath images (acc @ [allocated w]) w2 = ((tagged, r), w')" by simp
    have rest2: "\<forall>a \<in> set images. a < allocated w2" using rest f1(2) w1(2) by auto
    have hp: "map (heap w2) images = map (heap w) images"
      using rest f1(1) w1(3) by auto
    from Cons.IH[OF rec rest2] hp obtain k where ih:
      "stopped ?rest k r" "trace w' = trace w2 @ attempts tag_event ?rest k r"
      "\<forall>a < allocated w2. heap w' a = heap w2 a" "allocated w2 \<le> allocated w'" "locs w' = locs w2"
      "case r of
         None \<Rightarrow> (\<exists>new. tagged = (acc @ [allocated w]) @ new \<and> length new = length images
                    \<and> (\<forall>a \<in> set new. allocated w2 \<le> a \<and> a < allocated w')
                    \<and> distinct new
                    \<and> map (heap w') new = map (\<lambda>a. retagged targetRepo targetPath (heap w2 a)) images)
       | Some e \<Rightarrow> tagged = []"
      by auto
    have here: "length ?here = length ?ts" "k1 = length ?ts" using k1(1) None by (simp_all add: stopped_def)
    have s: "stopped (?here @ ?rest) (length ?here + k) r" using ih(1) by (rule stopped_append_ok)
    have a: "attempts tag_event (?here @ ?rest) (length ?here + k) r
        = map (\<lambda>x. tag_event x None) ?here @ attempts tag_event ?rest k r"
      by (rule attempts_append_ok)
    have a1: "attempts tag_event ?here k1 r1 = map (\<lambda>x. tag_event x None) ?here"
      using None here by (simp add: attempts_def)
    have tr: "trace w' = trace w @ attempts tag_event (?here @ ?rest) (length ?here + k) r"
      using ih(2) k1(2) ev1 a a1 w1(4) by simp
    have fr: "\<forall>a < allocated w. heap w' a = heap w a"
      using ih(3) f1(1,2) w1(2,3) by simp
    have hw: "heap w' (allocated w) = ?new" using ih(3) f1(1,2) w1(2,3) by simp
    have al: "allocated w \<le> allocated w'" using ih(4) f1(2) w1(2) by simp
    have lc: "locs w' = locs w" using ih(5) f1(3) w1(5) by simp
    have fin: "case r of
         None \<Rightarrow> (\<exists>new. tagged = acc @ new \<and> length new = length (img # images)
                    \<and> (\<forall>a \<in> set new. allocated w \<le> a \<and> a < allocated w')
                    \<and> distinct new
                    \<and> map (heap w') new = map (\<lambda>a. retagged targetRepo targetPath (heap w a)) (img # images))
       | Some e \<Rightarrow> tagged = []"
    proof (cases r)
      case (Some e)
      then show ?thesis using ih(6) by simp
    next
      case None
      with ih(6) obtain new where n: "tagged = (acc @ [allocated w]) @ new" "length new = length images"
        "\<forall>a \<in> set new. allocated w2 \<le> a \<and> a < allocated w'" "distinct new"
        "map (heap w') new = map (\<lambda>a. retagged targetRepo targetPath (heap w2 a)) images" by auto
      have "map (\<lambda>a. retagged targetRepo targetPath (heap w2 a)) images
          = map (\<lambda>a. retagged targetRepo targetPath (heap w a)) images"
        using rest f1(1) w1(3) by auto
      moreover have "allocated w \<notin> set new" using n(3) f1(2) w1(2) by auto
      ultimately show ?thesis
        using None n hw al f1(2) w1(2) ih(4)
        by (auto intro!: exI[of _ "allocated w # new"])
    qed
    show ?thesis
      using s tr fr al lc fin tt by (auto intro!: exI[of _ "length ?here + k"])
  qed
qed

lemma emitted_append [simp]: "trace w' = trace w @ evs \<Longrightarrow> emitted w w' = evs"
  by (simp add: emitted_def)

lemma Sync_pull_trace:
  assumes "Sync_pull env srcRef srcAuth tags verbose w = (r, w')"
  shows "(\<exists>k e. stopped (source_refs srcRef tags) k e
            \<and> trace w' = trace w @ attempts (pull_event srcAuth verbose tags) (source_refs srcRef tags) k e
            \<and> r = map_option (pull_error (source_refs srcRef tags ! k)) e)
         \<and> heap w' = heap w \<and> allocated w' = allocated w \<and> locs w' = locs w"
proof (cases "tags = []")
  case True
  obtain e w1 where p: "pull env srcRef srcAuth True verbose w = (e, w1)"
    by (cases "pull env srcRef srcAuth True verbose w") auto
  note fr = pull_frame[OF p]
  have res: "w' = w1" "r = map_option (pull_error srcRef) e"
    using assms True p by (cases e; simp add: Sync_pull_def pull_error_def)+
  define k0 where "k0 = (if e = None then 1 else 0::nat)"
  have sr: "source_refs srcRef tags = [srcRef]" using True by (simp add: source_refs_def)
  have 1: "stopped (source_refs srcRef tags) k0 e" by (simp add: sr stopped_def k0_def)
  have 2: "trace w' = trace w @ attempts (pull_event srcAuth verbose tags) (source_refs srcRef tags) k0 e"
    using fr(1) res(1) True by (simp add: source_refs_def attempts_def pull_event_def k0_def)
  have 3: "r = map_option (pull_error (source_refs srcRef tags ! k0)) e"
    using res(2) by (cases e) (simp_all add: sr k0_def)
  show ?thesis using 1 2 3 fr(2-4) res(1) by blast
next
  case False
  then have p: "pull_tags env srcRef srcAuth verbose tags w = (r, w')"
    using assms by (simp add: Sync_pull_def)
  from pull_tags_trace[OF p] obtain k e where k: "stopped tags k e"
    "trace w' = trace w @ attempts (\<lambda>t. EvPullImage (srcRef @ '':'' @ t) False srcAuth verbose) tags k e"
    "r = map_option (pull_error (srcRef @ '':'' @ tags ! k)) e" by blast
  have 1: "stopped (source_refs srcRef tags) k e" using k(1) False by (simp add: source_refs_def)
  have 2: "attempts (pull_event srcAuth verbose tags) (source_refs srcRef tags) k e
      = attempts (\<lambda>t. EvPullImage (srcRef @ '':'' @ t) False srcAuth verbose) tags k e"
    using k(1) False by (simp add: source_refs_def attempts_map pull_event_def)
  have 3: "e \<noteq> None \<Longrightarrow> source_refs srcRef tags ! k = srcRef @ '':'' @ tags ! k"
    using k(1) False by (simp add: source_refs_def stopped_def)
  have 4: "r = map_option (pull_error (source_refs srcRef tags ! k)) e"
    using k(3) 3 by (cases e) simp_all
  have 5: "trace w' = trace w @ attempts (pull_event srcAuth verbose tags) (source_refs srcRef tags) k e"
    using k(2) 2 by simp
  show ?thesis using 1 4 5 pull_tags_frame[OF p] by blast
qed

lemma tag_trace:
  assumes "tag env images targetRef w = ((tagged, r), w')"
    and "\<forall>a \<in> set images. a < allocated w"
  shows "\<exists>k. stopped (tag_targets (fst (target_of env targetRef)) (snd (target_of env targetRef)) (map (heap w) images)) k r
            \<and> trace w' = trace w @ attempts tag_event
                  (tag_targets (fst (target_of env targetRef)) (snd (target_of env targetRef)) (map (heap w) images)) k r"
proof -
  obtain targetRepo targetPath x where s: "SplitRef env targetRef = (targetRepo, targetPath, x)"
    by (cases "SplitRef env targetRef") auto
  then have t: "target_of env targetRef = (targetRepo, targetPath)" by (simp add: target_of_def)
  have "tag_images env targetRepo targetPath images [] w = ((tagged, r), w')"
    using assms(1) s by (simp add: tag_def)
  from tag_images_trace[OF this assms(2)] show ?thesis unfolding t by auto
qed

lemma Sync_cases [consumes 1, case_names pull_failed tag_failed pushed]:
  assumes "Sync env srcRef srcAuth trgtRef trgtAuth tags verbose w = (r, w')"
  obtains
    (pull_failed) k e where
      "k < length (source_refs srcRef tags)"
      "r = Some (pull_error (source_refs srcRef tags ! k) e)"
      "emitted w w' = Info (''pulling source image '' @ quoted srcRef)
          # map (\<lambda>ref. pull_event srcAuth verbose tags ref None) (take k (source_refs srcRef tags))
          @ [pull_event srcAuth verbose tags (source_refs srcRef tags ! k) (Some e)]"
  | (tag_failed) answers j e where
      "length answers = length (source_refs srcRef tags)"
      "j < length (tag_targets (fst (target_of env trgtRef)) (snd (target_of env trgtRef)) (concat (map fst answers)))"
      "r = Some (''error setting tags: '' @ e)"
      "emitted w w' = Info (''pulling source image '' @ quoted srcRef)
          # map (\<lambda>ref. pull_event srcAuth verbose tags ref None) (source_refs srcRef tags)
          @ Info ''relevant tags''
          # listing tags (source_refs srcRef tags) answers
          @ image_lines env (concat (map fst answers))
          @ Info (''setting tags for target image '' @ quoted trgtRef)
          # map (\<lambda>x. tag_event x None)
              (take j (tag_targets (fst (target_of env trgtRef)) (snd (target_of env trgtRef)) (concat (map fst answers))))
          @ [tag_event (tag_targets (fst (target_of env trgtRef)) (snd (target_of env trgtRef)) (concat (map fst answers)) ! j) (Some e)]"
  | (pushed) answers e where
      "length answers = length (source_refs srcRef tags)"
      "r = map_option (\<lambda>m. ''error pushing target image: '' @ m) e"
      "emitted w w' = Info (''pulling source image '' @ quoted srcRef)
          # map (\<lambda>ref. pull_event srcAuth verbose tags ref None) (source_refs srcRef tags)
          @ Info ''relevant tags''
          # listing tags (source_refs srcRef tags) answers
          @ image_lines env (concat (map fst answers))
          @ Info (''setting tags for target image '' @ quoted trgtRef)
          # map (\<lambda>x. tag_event x None)
              (tag_targets (fst (target_of env trgtRef)) (snd (target_of env trgtRef)) (concat (map fst answers)))
          @ [Info (''pushing target image '' @ quoted trgtRef), EvPushImage trgtRef True trgtAuth verbose e]"
proof -
  let ?refs = "source_refs srcRef tags"
  let ?w0 = "LogInfo (''pulling source image '' @ quoted srcRef) w"
  obtain rp w1 where p: "Sync_pull env srcRef srcAuth tags verbose ?w0 = (rp, w1)"
    by (cases "Sync_pull env srcRef srcAuth tags verbose ?w0") auto
  from Sync_pull_trace[OF p] obtain k e where k: "stopped ?refs k e"
    "trace w1 = trace ?w0 @ attempts (pull_event srcAuth verbose tags) ?refs k e"
    "rp = map_option (pull_error (?refs ! k)) e"
    and f1: "heap w1 = heap ?w0" "allocated w1 = allocated ?w0" "locs w1 = locs ?w0" by blast
  show thesis
  proof (cases e)
    case (Some m)
    then have "r = Some (pull_error (?refs ! k) m)" "w' = w1"
      using assms p k(3) by (simp_all add: Sync_def)
    moreover have "k < length ?refs" using k(1) Some by (simp add: stopped_def)
    moreover have "trace w' = trace w @ Info (''pulling source image '' @ quoted srcRef)
          # map (\<lambda>ref. pull_event srcAuth verbose tags ref None) (take k ?refs)
          @ [pull_event srcAuth verbose tags (?refs ! k) (Some m)]"
      using k(2) Some \<open>w' = w1\<close> by (simp add: attempts_def)
    ultimately show thesis by (intro pull_failed[of k m]) simp_all
  next
    case None
    then have rp: "rp = None" using k(3) by simp
    have tr1: "trace w1 = trace w @ Info (''pulling source image '' @ quoted srcRef)
          # map (\<lambda>ref. pull_event srcAuth verbose tags ref None) ?refs"
      using k(1,2) None by (simp add: attempts_None)
    let ?w1 = "LogInfo ''relevant tags'' w1"
    obtain srcImages w2 where l: "Sync_list env srcRef tags ?w1 = (srcImages, w2)"
      by (cases "Sync_list env srcRef tags ?w1") auto
    from Sync_list_trace[OF l] obtain answers where a:
      "length answers = length ?refs"
      "trace w2 = trace ?w1 @ listing tags ?refs answers"
      "map (heap w2) srcImages = concat (map fst answers)"
      "\<forall>a \<in> set srcImages. a < allocated w2"
      unfolding source_refs_def listing_def by blast
    let ?imgs = "concat (map fst answers)"
    let ?w3 = "LogInfo (''setting tags for target image '' @ quoted trgtRef) (log_images env srcImages w2)"
    have lines: "map (\<lambda>a. Info ('' - '' @ RefWithTags env (heap w2 a))) srcImages = image_lines env ?imgs"
      unfolding image_lines_def a(3)[symmetric] by (simp add: comp_def)
    have w3: "trace ?w3 = trace w2 @ image_lines env ?imgs @ [Info (''setting tags for target image '' @ quoted trgtRef)]"
      "heap ?w3 = heap w2" "allocated ?w3 = allocated w2"
      using log_images_frame[of env srcImages w2] lines by simp_all
    obtain tagged rt w4 where t: "tag env srcImages trgtRef ?w3 = ((tagged, rt), w4)"
      by (cases "tag env srcImages trgtRef ?w3") auto
    have valid: "\<forall>a \<in> set srcImages. a < allocated ?w3" using a(4) w3(3) by simp
    let ?targets = "tag_targets (fst (target_of env trgtRef)) (snd (target_of env trgtRef)) ?imgs"
    from tag_trace[OF t valid] obtain j where j: "stopped ?targets j rt"
      "trace w4 = trace ?w3 @ attempts tag_event ?targets j rt"
      unfolding w3(2) a(3) by blast
    show thesis
    proof (cases rt)
      case (Some m)
      then have "r = Some (''error setting tags: '' @ m)" "w' = w4"
        using assms p rp l t by (simp_all add: Sync_def)
      moreover have "j < length ?targets" using j(1) Some by (simp add: stopped_def)
      moreover have "trace w' = trace w @ Info (''pulling source image '' @ quoted srcRef)
          # map (\<lambda>ref. pull_event srcAuth verbose tags ref None) ?refs
          @ Info ''relevant tags''
          # listing tags ?refs answers
          @ image_lines env ?imgs
          @ Info (''setting tags for target image '' @ quoted trgtRef)
          # map (\<lambda>x. tag_event x None) (take j ?targets)
          @ [tag_event (?targets ! j) (Some m)]"
        using j(2) w3(1) a(2) tr1 Some \<open>w' = w4\<close> by (simp add: attempts_def)
      ultimately show thesis using a(1) by (intro tag_failed[of answers j m]) simp_all
    next
      case None
      let ?w5 = "LogInfo (''pushing target image '' @ quoted trgtRef) w4"
      obtain e5 w5 where ps: "push env trgtRef trgtAuth verbose ?w5 = (e5, w5)"
        by (cases "push env trgtRef trgtAuth verbose ?w5") auto
      have "r = map_option (\<lambda>m. ''error pushing target image: '' @ m) e5" "w' = w5"
        using assms p rp l t None ps by (cases e5; simp add: Sync_def)+
      moreover have "trace w' = trace w @ Info (''pulling source image '' @ quoted srcRef)
          # map (\<lambda>ref. pull_event srcAuth verbose tags ref None) ?refs
          @ Info ''relevant tags''
          # listing tags ?refs answers
          @ image_lines env ?imgs
          @ Info (''setting tags for target image '' @ quoted trgtRef)
          # map (\<lambda>x. tag_event x None) ?targets
          @ [Info (''pushing target image '' @ quoted trgtRef), EvPushImage trgtRef True trgtAuth verbose e5]"
        using push_frame(1)[OF ps] j w3(1) a(2) tr1 None \<open>w' = w5\<close> by (simp add: attempts_None)
      ultimately show thesis using a(1) by (intro pushed[of answers e5]) simp_all
    qed
  qed
qed

section \<open>Reading the trace of Sync\<close>

lemmas run_defs = demo_env_def w0_def Sync_def Sync_pull_def Sync_list_def list_def pull_def push_def
  tag_def TagImage_call_def new_Image_def emit_def LogInfo_def LogError_def emitted_def quoted_def
  Ref_def failed_def Let_def

lemma is_pull_event [simp]:
  "is_pull (pull_event a v tags ref e)" "\<not> is_list (pull_event a v tags ref e)"
  "\<not> is_tag (pull_event a v tags ref e)" "\<not> is_push (pull_event a v tags ref e)"
  "\<not> is_error (pull_event a v tags ref e)" "answer (pull_event a v tags ref e) = e"
  "images_of (pull_event a v tags ref e) = []"
  by (simp_all add: pull_event_def)

lemma is_tag_event [simp]:
  "is_tag (tag_event x e)" "\<not> is_list (tag_event x e)"
  "\<not> is_pull (tag_event x e)" "\<not> is_push (tag_event x e)"
  "\<not> is_error (tag_event x e)" "answer (tag_event x e) = e"
  "images_of (tag_event x e) = []"
  by (simp_all add: tag_event_def)

lemma image_lines_filter [simp]:
  "filter is_pull (image_lines env imgs) = []" "filter is_list (image_lines env imgs) = []"
  "filter is_tag (image_lines env imgs) = []" "filter is_push (image_lines env imgs) = []"
  "filter is_error (image_lines env imgs) = []"
  "ev \<in> set (image_lines env imgs) \<Longrightarrow> \<not> is_pull ev \<and> \<not> is_list ev \<and> \<not> is_tag ev \<and> \<not> is_push ev \<and> answer ev = None"
  "listed (image_lines env imgs) = []"
  by (auto simp: image_lines_def filter_map comp_def listed_def)

lemma listed_append [simp]: "listed (xs @ ys) = listed xs @ listed ys"
  by (simp add: listed_def)

lemma listed_Cons [simp]: "listed (ev # evs) = images_of ev @ listed evs"
  by (simp add: listed_def)

lemma listed_Nil [simp]: "listed [] = []"
  by (simp add: listed_def)

lemma listed_pulls [simp]: "listed (map (\<lambda>ref. pull_event a v tags ref e) refs) = []"
  by (induction refs) simp_all

lemma listed_tags [simp]: "listed (map (\<lambda>x. tag_event x e) xs) = []"
  by (induction xs) simp_all

lemma listing_facts:
  assumes "length answers = length refs"
  shows "filter is_list (listing tags refs answers) = map (\<lambda>(ref, a). EvListImages ref (fst a) (snd a)) (zip refs answers)"
    and "filter is_pull (listing tags refs answers) = []"
    and "filter is_tag (listing tags refs answers) = []"
    and "filter is_push (listing tags refs answers) = []"
    and "listed (listing tags refs answers) = concat (map fst answers)"
    and "map list_ref (filter is_list (listing tags refs answers)) = refs"
  using assms
  by (induction refs answers rule: list_induct2'; simp add: listing_def list_events_def split: option.splits)+

lemma listing_set:
  "ev \<in> set (listing tags refs answers) \<Longrightarrow> \<not> is_pull ev \<and> \<not> is_tag ev \<and> \<not> is_push ev"
  by (induction refs answers rule: list_induct2') (auto simp: listing_def list_events_def split: option.splits)

section \<open>The claims about Sync and tag\<close>

text \<open>
  C1 (as amended). For every call of \<open>Sync\<close> in which every pull succeeds: if \<open>tags\<close> is
  empty, exactly one pull is issued, on \<open>srcRef\<close> with \<open>allTags = true\<close>, and exactly one
  list call, on \<open>srcRef\<close>; if \<open>tags = [t1,...,tn]\<close> is not empty, exactly \<open>n\<close> pulls are
  issued, on \<open>srcRef:ti\<close> with \<open>allTags = false\<close>, and exactly \<open>n\<close> list calls, on
  \<open>srcRef:ti\<close>, one per tag and in the order of the tags.
\<close>

theorem Sync_pulls_then_lists:
  assumes "Sync env srcRef srcAuth trgtRef trgtAuth tags verbose w = (r, w')"
    and "no_failed is_pull (emitted w w')"
  shows "filter is_pull (emitted w w')
           = (if tags = [] then [EvPullImage srcRef True srcAuth verbose None]
              else map (\<lambda>t. EvPullImage (srcRef @ '':'' @ t) False srcAuth verbose None) tags)
       \<and> map list_ref (filter is_list (emitted w w'))
           = (if tags = [] then [srcRef] else map (\<lambda>t. srcRef @ '':'' @ t) tags)"
proof -
  let ?refs = "source_refs srcRef tags"
  have "filter is_pull (emitted w w') = map (\<lambda>ref. pull_event srcAuth verbose tags ref None) ?refs
      \<and> map list_ref (filter is_list (emitted w w')) = ?refs"
    using assms(1)
  proof (cases rule: Sync_cases)
    case (pull_failed k e)
    then have "pull_event srcAuth verbose tags (?refs ! k) (Some e) \<in> set (emitted w w')"
      by simp
    with assms(2) show ?thesis by (auto simp: failed_def no_failed_def)
  next
    case (tag_failed answers j e)
    show ?thesis
      unfolding tag_failed(4) using tag_failed(1)
      by (simp add: listing_facts(2-6) filter_map comp_def)
  next
    case (pushed answers e)
    show ?thesis
      unfolding pushed(3) using pushed(1)
      by (simp add: listing_facts(2-6) filter_map comp_def)
  qed
  then show ?thesis
    by (simp add: source_refs_def pull_event_def)
qed

theorem Sync_pulls_then_lists_witness:
  "no_failed is_pull
     (emitted w0 (snd (Sync (demo_env [] [] [] True) ''src.io/app'' ''u:p'' ''dst.io/app'' ''k'' [''1.0'', ''1.1''] False w0)))
   \<and> filter is_pull (emitted w0 (snd (Sync (demo_env [] [] [] True) ''src.io/app'' ''u:p'' ''dst.io/app'' ''k'' [''1.0'', ''1.1''] False w0)))
       = [EvPullImage ''src.io/app:1.0'' False ''u:p'' False None, EvPullImage ''src.io/app:1.1'' False ''u:p'' False None]
   \<and> map list_ref (filter is_list (emitted w0 (snd (Sync (demo_env [] [] [] True) ''src.io/app'' ''u:p'' ''dst.io/app'' ''k'' [''1.0'', ''1.1''] False w0))))
       = [''src.io/app:1.0'', ''src.io/app:1.1'']"
proof -
  let ?run = "Sync (demo_env [] [] [] True) ''src.io/app'' ''u:p'' ''dst.io/app'' ''k'' [''1.0'', ''1.1''] False w0"
  have h: "no_failed is_pull (emitted w0 (snd ?run))"
    by (simp add: run_defs no_failed_def)
  from Sync_pulls_then_lists[OF prod.collapse[symmetric] h] h show ?thesis by simp
qed

text \<open>
  As stated, C1 promises the list call for empty \<open>tags\<close> whether or not the pull succeeds.
  When the single pull fails, \<open>Sync\<close> returns before it lists anything.
\<close>

theorem Sync_empty_tags_failed_pull_counterexample:
  "filter is_pull (emitted w0 (snd (Sync (demo_env [''src.io/app''] [] [] True) ''src.io/app'' ''u:p'' ''dst.io/app'' ''k'' [] False w0)))
      = [EvPullImage ''src.io/app'' True ''u:p'' False (Some ''pull refused'')]
   \<and> filter is_list (emitted w0 (snd (Sync (demo_env [''src.io/app''] [] [] True) ''src.io/app'' ''u:p'' ''dst.io/app'' ''k'' [] False w0))) = []"
  by (simp add: run_defs)

lemma no_failed_iff: "no_failed kind evs \<longleftrightarrow> \<not> some_failed kind evs"
  by (auto simp: no_failed_def some_failed_def)

lemma some_failed_simps [simp]:
  "some_failed kind [] = False"
  "some_failed kind (ev # evs) = (kind ev \<and> failed ev \<or> some_failed kind evs)"
  "some_failed kind (xs @ ys) = (some_failed kind xs \<or> some_failed kind ys)"
  by (auto simp: some_failed_def)

lemma some_failed_pieces [simp]:
  "some_failed kind (map (\<lambda>ref. pull_event a v tags ref None) refs) = False"
  "some_failed kind (map (\<lambda>x. tag_event x None) xs) = False"
  "some_failed kind (image_lines env imgs) = False"
  "some_failed is_pull (listing tags refs answers) = False"
  "some_failed is_tag (listing tags refs answers) = False"
  "some_failed is_push (listing tags refs answers) = False"
  using listing_set[of _ tags refs answers]
  by (auto simp: some_failed_def failed_def image_lines_def)

lemma failed_simps [simp]:
  "failed (Info m) = False" "failed (Error m) = False"
  "failed (pull_event a v tags ref e) = (e \<noteq> None)"
  "failed (tag_event x e) = (e \<noteq> None)"
  "failed (EvPushImage ref allTags auth verbose e) = (e \<noteq> None)"
  by (simp_all add: failed_def)

lemma listed_listing [simp]:
  "length answers = length refs \<Longrightarrow> listed (listing tags refs answers) = concat (map fst answers)"
  by (rule listing_facts(5))

lemma filter_listing [simp]:
  "filter is_pull (listing tags refs answers) = []"
  "filter is_tag (listing tags refs answers) = []"
  "filter is_push (listing tags refs answers) = []"
  using listing_set[of _ tags refs answers] by (auto simp: filter_empty_conv)

lemma filter_pull_events [simp]:
  "filter is_pull (map (\<lambda>ref. pull_event a v tags ref e) refs) = map (\<lambda>ref. pull_event a v tags ref e) refs"
  "filter is_list (map (\<lambda>ref. pull_event a v tags ref e) refs) = []"
  "filter is_tag (map (\<lambda>ref. pull_event a v tags ref e) refs) = []"
  "filter is_push (map (\<lambda>ref. pull_event a v tags ref e) refs) = []"
  "filter is_error (map (\<lambda>ref. pull_event a v tags ref e) refs) = []"
  by (simp_all add: filter_map comp_def)

lemma filter_tag_events [simp]:
  "filter is_tag (map (\<lambda>x. tag_event x e) xs) = map (\<lambda>x. tag_event x e) xs"
  "filter is_list (map (\<lambda>x. tag_event x e) xs) = []"
  "filter is_pull (map (\<lambda>x. tag_event x e) xs) = []"
  "filter is_push (map (\<lambda>x. tag_event x e) xs) = []"
  "filter is_error (map (\<lambda>x. tag_event x e) xs) = []"
  by (simp_all add: filter_map comp_def)

lemma listing_simps [simp]:
  "listing tags [] answers = []" "listing tags refs [] = []"
  "listing tags (ref # refs) (a # answers)
     = EvListImages ref (fst a) (snd a) # list_failure_line tags (EvListImages ref (fst a) (snd a))
       @ listing tags refs answers"
  by (simp_all add: listing_def list_events_def list_failure_line_def split: option.splits)

lemma list_failure_line_is_error [simp]:
  "filter is_list (list_failure_line tags ev) = []"
  "filter (\<lambda>ev. is_list ev \<or> is_error ev) (list_failure_line tags ev) = list_failure_line tags ev"
  by (simp_all add: list_failure_line_def split: option.splits)

lemma listing_logged:
  "filter (\<lambda>ev. is_list ev \<or> is_error ev) (listing tags refs answers)
     = concat (map (\<lambda>ev. ev # list_failure_line tags ev) (filter is_list (listing tags refs answers)))"
  by (induction refs answers rule: list_induct2') simp_all

lemma list_or_error_pieces [simp]:
  "filter (\<lambda>ev. is_list ev \<or> is_error ev) (map (\<lambda>ref. pull_event a v tags ref e) refs) = []"
  "filter (\<lambda>ev. is_list ev \<or> is_error ev) (map (\<lambda>x. tag_event x e) xs) = []"
  "filter (\<lambda>ev. is_list ev \<or> is_error ev) (image_lines env imgs) = []"
  by (simp_all add: filter_map comp_def image_lines_def)

lemmas trace_defs = run_defs no_failed_def some_failed_def listed_def tag_targets_def target_of_def
  list_failure_line_def list_error_def list_all_error_def source_refs_def

text \<open>
  C2. When a pull fails, \<open>Sync\<close> returns the error at once. The whole trace of the call is
  the line \<open>pulling source image\<close>, the pulls that succeeded (those of the tags before the
  failing one, in order) and the failing pull: no pull of a later tag, no list, no tag and no
  push. With empty \<open>tags\<close> the references are the single \<open>srcRef\<close>, pulled with
  \<open>allTags = true\<close>.
\<close>

theorem Sync_returns_at_first_failed_pull:
  assumes "Sync env srcRef srcAuth trgtRef trgtAuth tags verbose w = (r, w')"
    and "some_failed is_pull (emitted w w')"
  shows "(\<exists>k e. k < length (source_refs srcRef tags)
            \<and> emitted w w' = Info (''pulling source image '' @ quoted srcRef)
                # map (\<lambda>ref. EvPullImage ref (tags = []) srcAuth verbose None) (take k (source_refs srcRef tags))
                @ [EvPullImage (source_refs srcRef tags ! k) (tags = []) srcAuth verbose (Some e)]
            \<and> r = Some (pull_error (source_refs srcRef tags ! k) e))
       \<and> filter is_list (emitted w w') = []
       \<and> filter is_tag (emitted w w') = []
       \<and> filter is_push (emitted w w') = []"
  using assms(1)
proof (cases rule: Sync_cases)
  case (pull_failed k e)
  have "filter is_list (emitted w w') = [] \<and> filter is_tag (emitted w w') = []
      \<and> filter is_push (emitted w w') = []"
    unfolding pull_failed(3) by (simp add: filter_map comp_def)
  moreover have "emitted w w' = Info (''pulling source image '' @ quoted srcRef)
                # map (\<lambda>ref. EvPullImage ref (tags = []) srcAuth verbose None) (take k (source_refs srcRef tags))
                @ [EvPullImage (source_refs srcRef tags ! k) (tags = []) srcAuth verbose (Some e)]"
    unfolding pull_failed(3) by (simp add: pull_event_def)
  ultimately show ?thesis using pull_failed(1,2) by blast
next
  case (tag_failed answers j e)
  from assms(2) show ?thesis unfolding tag_failed(4) by simp
next
  case (pushed answers e)
  from assms(2) show ?thesis unfolding pushed(3) by simp
qed

theorem Sync_returns_at_first_failed_pull_witness:
  "some_failed is_pull
     (emitted w0 (snd (Sync (demo_env [''src.io/app:1.1''] [] [] True) ''src.io/app'' ''u:p'' ''dst.io/app'' ''k'' [''1.0'', ''1.1'', ''1.2''] False w0)))
   \<and> emitted w0 (snd (Sync (demo_env [''src.io/app:1.1''] [] [] True) ''src.io/app'' ''u:p'' ''dst.io/app'' ''k'' [''1.0'', ''1.1'', ''1.2''] False w0))
       = [Info (''pulling source image '' @ quoted ''src.io/app''),
          EvPullImage ''src.io/app:1.0'' False ''u:p'' False None,
          EvPullImage ''src.io/app:1.1'' False ''u:p'' False (Some ''pull refused'')]
   \<and> fst (Sync (demo_env [''src.io/app:1.1''] [] [] True) ''src.io/app'' ''u:p'' ''dst.io/app'' ''k'' [''1.0'', ''1.1'', ''1.2''] False w0)
       = Some (pull_error ''src.io/app:1.1'' ''pull refused'')
   \<and> filter is_list (emitted w0 (snd (Sync (demo_env [''src.io/app:1.1''] [] [] True) ''src.io/app'' ''u:p'' ''dst.io/app'' ''k'' [''1.0'', ''1.1'', ''1.2''] False w0))) = []"
proof -
  let ?run = "Sync (demo_env [''src.io/app:1.1''] [] [] True) ''src.io/app'' ''u:p'' ''dst.io/app'' ''k'' [''1.0'', ''1.1'', ''1.2''] False w0"
  have h: "some_failed is_pull (emitted w0 (snd ?run))"
    by (simp add: run_defs some_failed_def)
  have e: "emitted w0 (snd ?run) = [Info (''pulling source image '' @ quoted ''src.io/app''),
          EvPullImage ''src.io/app:1.0'' False ''u:p'' False None,
          EvPullImage ''src.io/app:1.1'' False ''u:p'' False (Some ''pull refused'')]"
    by (simp add: run_defs)
  have r: "fst ?run = Some (pull_error ''src.io/app:1.1'' ''pull refused'')"
    by (simp add: run_defs pull_error_def)
  from Sync_returns_at_first_failed_pull[OF prod.collapse[symmetric] h] h e r show ?thesis by blast
qed

text \<open>
  C3. The re-tag step splits \<open>trgtRef\<close> into \<open>(targetRepo, targetPath)\<close> and, for every image
  that the list calls answered and every tag on it, calls \<open>TagImage\<close> with the image's ID and
  the reference \<open>targetRepo/targetPath:tag\<close> (the list \<open>targets\<close>), image by image and tag by
  tag. If no tagging call fails, these are all the tagging calls; if one fails, it is the last
  one, \<open>Sync\<close> returns the error and nothing is pushed.
\<close>

theorem Sync_tags_each_listed_image:
  assumes "Sync env srcRef srcAuth trgtRef trgtAuth tags verbose w = (r, w')"
    and "targets = tag_targets (fst (target_of env trgtRef)) (snd (target_of env trgtRef)) (listed (emitted w w'))"
  shows "(no_failed is_tag (emitted w w') \<longrightarrow>
            filter is_tag (emitted w w') = map (\<lambda>(ident, ref). EvTagImage ident ref None) targets)
       \<and> (some_failed is_tag (emitted w w') \<longrightarrow>
            (\<exists>j e. j < length targets
               \<and> filter is_tag (emitted w w')
                   = map (\<lambda>(ident, ref). EvTagImage ident ref None) (take j targets)
                     @ [EvTagImage (fst (targets ! j)) (snd (targets ! j)) (Some e)]
               \<and> r = Some (''error setting tags: '' @ e))
            \<and> filter is_push (emitted w w') = [])"
proof -
  have ev: "(\<lambda>x. tag_event x None) = (\<lambda>(ident, ref). EvTagImage ident ref None)"
    by (auto simp: tag_event_def)
  show ?thesis
    using assms(1)
  proof (cases rule: Sync_cases)
    case (pull_failed k e)
    have "listed (emitted w w') = []" "filter is_tag (emitted w w') = []"
      "\<not> some_failed is_tag (emitted w w')"
      unfolding pull_failed(3) by simp_all
    then show ?thesis using assms(2) by (simp add: tag_targets_def)
  next
    case (tag_failed answers j e)
    have l: "listed (emitted w w') = concat (map fst answers)"
      unfolding tag_failed(4) using tag_failed(1) by simp
    have tg: "targets = tag_targets (fst (target_of env trgtRef)) (snd (target_of env trgtRef)) (concat (map fst answers))"
      using assms(2) l by simp
    have t: "filter is_tag (emitted w w') = map (\<lambda>x. tag_event x None) (take j targets) @ [tag_event (targets ! j) (Some e)]"
      unfolding tag_failed(4) tg by simp
    have f: "some_failed is_tag (emitted w w')" "filter is_push (emitted w w') = []"
      unfolding tag_failed(4) by simp_all
    have "j < length targets" using tag_failed(2) assms(2) l by simp
    then show ?thesis
      using t f tag_failed(3) unfolding ev no_failed_iff
      by (auto simp: tag_event_def)
  next
    case (pushed answers e)
    have l: "listed (emitted w w') = concat (map fst answers)"
      unfolding pushed(3) using pushed(1) by simp
    have tg: "targets = tag_targets (fst (target_of env trgtRef)) (snd (target_of env trgtRef)) (concat (map fst answers))"
      using assms(2) l by simp
    have t: "filter is_tag (emitted w w') = map (\<lambda>x. tag_event x None) targets"
      unfolding pushed(3) tg by simp
    have f: "\<not> some_failed is_tag (emitted w w')"
      unfolding pushed(3) by simp
    show ?thesis using t f unfolding ev by simp
  qed
qed

theorem Sync_tags_each_listed_image_witness:
  "no_failed is_tag
     (emitted w0 (snd (Sync (demo_env [] [] [] True) ''src.io/app'' ''u:p'' ''dst.io/app'' ''k'' [''1.0''] False w0)))
   \<and> filter is_tag
       (emitted w0 (snd (Sync (demo_env [] [] [] True) ''src.io/app'' ''u:p'' ''dst.io/app'' ''k'' [''1.0''] False w0)))
       = [EvTagImage ''sha-src.io/app:1.0'' ''dst.io/app:a'' None,
          EvTagImage ''sha-src.io/app:1.0'' ''dst.io/app:b'' None]
   \<and> some_failed is_tag
       (emitted w0 (snd (Sync (demo_env [] [] [''dst.io/app:b''] True) ''src.io/app'' ''u:p'' ''dst.io/app'' ''k'' [''1.0'', ''1.1''] False w0)))
   \<and> filter is_tag
       (emitted w0 (snd (Sync (demo_env [] [] [''dst.io/app:b''] True) ''src.io/app'' ''u:p'' ''dst.io/app'' ''k'' [''1.0'', ''1.1''] False w0)))
       = [EvTagImage ''sha-src.io/app:1.0'' ''dst.io/app:a'' None,
          EvTagImage ''sha-src.io/app:1.0'' ''dst.io/app:b'' (Some ''tag refused'')]
   \<and> fst (Sync (demo_env [] [] [''dst.io/app:b''] True) ''src.io/app'' ''u:p'' ''dst.io/app'' ''k'' [''1.0'', ''1.1''] False w0)
       = Some ''error setting tags: tag refused''
   \<and> filter is_push
       (emitted w0 (snd (Sync (demo_env [] [] [''dst.io/app:b''] True) ''src.io/app'' ''u:p'' ''dst.io/app'' ''k'' [''1.0'', ''1.1''] False w0)))
       = []"
proof -
  let ?good = "Sync (demo_env [] [] [] True) ''src.io/app'' ''u:p'' ''dst.io/app'' ''k'' [''1.0''] False w0"
  let ?bad = "Sync (demo_env [] [] [''dst.io/app:b''] True) ''src.io/app'' ''u:p'' ''dst.io/app'' ''k'' [''1.0'', ''1.1''] False w0"
  have g: "no_failed is_tag (emitted w0 (snd ?good))"
    by (simp add: trace_defs)
  have gt: "tag_targets (fst (target_of (demo_env [] [] [] True) ''dst.io/app''))
              (snd (target_of (demo_env [] [] [] True) ''dst.io/app'')) (listed (emitted w0 (snd ?good)))
            = [(''sha-src.io/app:1.0'', ''dst.io/app:a''), (''sha-src.io/app:1.0'', ''dst.io/app:b'')]"
    by (simp add: trace_defs)
  have b: "some_failed is_tag (emitted w0 (snd ?bad))"
    by (simp add: trace_defs)
  have bt: "filter is_tag (emitted w0 (snd ?bad))
       = [EvTagImage ''sha-src.io/app:1.0'' ''dst.io/app:a'' None,
          EvTagImage ''sha-src.io/app:1.0'' ''dst.io/app:b'' (Some ''tag refused'')]"
    by (simp add: trace_defs)
  have br: "fst ?bad = Some ''error setting tags: tag refused''"
    by (simp add: trace_defs)
  have cg: "?good = (fst ?good, snd ?good)" and cb: "?bad = (fst ?bad, snd ?bad)" by simp_all
  from Sync_tags_each_listed_image[OF cg refl] g gt
  have 1: "filter is_tag (emitted w0 (snd ?good))
       = [EvTagImage ''sha-src.io/app:1.0'' ''dst.io/app:a'' None,
          EvTagImage ''sha-src.io/app:1.0'' ''dst.io/app:b'' None]"
    by simp
  from Sync_tags_each_listed_image[OF cb refl] b
  have 2: "filter is_push (emitted w0 (snd ?bad)) = []"
    by blast
  show ?thesis using g 1 b bt br 2 by blast
qed

text \<open>
  C4 (as amended). In a call of \<open>Sync\<close> whose pulls succeed, a failure of a list call is
  logged and never makes \<open>Sync\<close> return an error: a list call is issued for every
  reference whatever the earlier list calls answered; every failed list call is followed by its
  error line and by nothing else; \<open>Sync\<close> returns an error exactly when a tagging call or
  the push fails; and the tag step, followed by the push, works on all the images that the list
  calls answered, those of a failed call included, concatenated in tag order.
\<close>

theorem Sync_list_failure_is_logged_not_returned:
  assumes "Sync env srcRef srcAuth trgtRef trgtAuth tags verbose w = (r, w')"
    and "no_failed is_pull (emitted w w')"
  shows "map list_ref (filter is_list (emitted w w')) = source_refs srcRef tags
       \<and> filter (\<lambda>ev. is_list ev \<or> is_error ev) (emitted w w')
           = concat (map (\<lambda>ev. ev # list_failure_line tags ev) (filter is_list (emitted w w')))
       \<and> (r = None) = (\<not> some_failed is_tag (emitted w w') \<and> \<not> some_failed is_push (emitted w w'))
       \<and> (no_failed is_tag (emitted w w') \<longrightarrow>
            filter is_tag (emitted w w')
              = map (\<lambda>(ident, ref). EvTagImage ident ref None)
                  (tag_targets (fst (target_of env trgtRef)) (snd (target_of env trgtRef)) (listed (emitted w w')))
            \<and> (\<exists>e. filter is_push (emitted w w') = [EvPushImage trgtRef True trgtAuth verbose e]))"
proof -
  have ev: "(\<lambda>x. tag_event x None) = (\<lambda>(ident, ref). EvTagImage ident ref None)"
    by (auto simp: tag_event_def)
  show ?thesis
    using assms(1)
  proof (cases rule: Sync_cases)
    case (pull_failed k e)
    have "some_failed is_pull (emitted w w')" unfolding pull_failed(3) by simp
    with assms(2) show ?thesis by (simp add: no_failed_iff)
  next
    case (tag_failed answers j e)
    have 1: "map list_ref (filter is_list (emitted w w')) = source_refs srcRef tags"
      unfolding tag_failed(4) using tag_failed(1) by (simp add: listing_facts(6))
    have 2: "filter (\<lambda>ev. is_list ev \<or> is_error ev) (emitted w w')
           = concat (map (\<lambda>ev. ev # list_failure_line tags ev) (filter is_list (emitted w w')))"
      unfolding tag_failed(4) by (simp add: listing_logged)
    have 3: "some_failed is_tag (emitted w w')" unfolding tag_failed(4) by simp
    show ?thesis using 1 2 3 tag_failed(3) by (simp add: no_failed_iff)
  next
    case (pushed answers e)
    have 1: "map list_ref (filter is_list (emitted w w')) = source_refs srcRef tags"
      unfolding pushed(3) using pushed(1) by (simp add: listing_facts(6))
    have 2: "filter (\<lambda>ev. is_list ev \<or> is_error ev) (emitted w w')
           = concat (map (\<lambda>ev. ev # list_failure_line tags ev) (filter is_list (emitted w w')))"
      unfolding pushed(3) by (simp add: listing_logged)
    have 3: "\<not> some_failed is_tag (emitted w w')" "some_failed is_push (emitted w w') = (e \<noteq> None)"
      unfolding pushed(3) by simp_all
    have l: "listed (emitted w w') = concat (map fst answers)"
      unfolding pushed(3) using pushed(1) by simp
    have 4: "filter is_tag (emitted w w')
              = map (\<lambda>x. tag_event x None)
                  (tag_targets (fst (target_of env trgtRef)) (snd (target_of env trgtRef)) (listed (emitted w w')))"
      unfolding l unfolding pushed(3) by simp
    have 5: "filter is_push (emitted w w') = [EvPushImage trgtRef True trgtAuth verbose e]"
      unfolding pushed(3) by simp
    have 6: "(r = None) = (e = None)" using pushed(2) by simp
    show ?thesis using 1 2 3 4 5 6 unfolding ev by simp
  qed
qed

theorem Sync_list_failure_is_logged_not_returned_witness:
  "no_failed is_pull
     (emitted w0 (snd (Sync stale_env ''src.io/app'' ''u:p'' ''dst.io/app'' ''k'' [''1.0'', ''1.1'', ''1.2''] False w0)))
   \<and> no_failed is_tag
     (emitted w0 (snd (Sync stale_env ''src.io/app'' ''u:p'' ''dst.io/app'' ''k'' [''1.0'', ''1.1'', ''1.2''] False w0)))
   \<and> map list_ref (filter is_list
     (emitted w0 (snd (Sync stale_env ''src.io/app'' ''u:p'' ''dst.io/app'' ''k'' [''1.0'', ''1.1'', ''1.2''] False w0))))
       = [''src.io/app:1.0'', ''src.io/app:1.1'', ''src.io/app:1.2'']
   \<and> filter is_error
     (emitted w0 (snd (Sync stale_env ''src.io/app'' ''u:p'' ''dst.io/app'' ''k'' [''1.0'', ''1.1'', ''1.2''] False w0)))
       = [Error (list_error ''src.io/app:1.1'' ''list refused'')]
   \<and> fst (Sync stale_env ''src.io/app'' ''u:p'' ''dst.io/app'' ''k'' [''1.0'', ''1.1'', ''1.2''] False w0) = None
   \<and> filter is_tag
     (emitted w0 (snd (Sync stale_env ''src.io/app'' ''u:p'' ''dst.io/app'' ''k'' [''1.0'', ''1.1'', ''1.2''] False w0)))
       = [EvTagImage ''sha-src.io/app:1.0'' ''dst.io/app:a'' None,
          EvTagImage ''sha-stale'' ''dst.io/app:old'' None,
          EvTagImage ''sha-src.io/app:1.2'' ''dst.io/app:a'' None]
   \<and> filter is_push
     (emitted w0 (snd (Sync stale_env ''src.io/app'' ''u:p'' ''dst.io/app'' ''k'' [''1.0'', ''1.1'', ''1.2''] False w0)))
       = [EvPushImage ''dst.io/app'' True ''k'' False None]"
proof -
  let ?run = "Sync stale_env ''src.io/app'' ''u:p'' ''dst.io/app'' ''k'' [''1.0'', ''1.1'', ''1.2''] False w0"
  have p: "no_failed is_pull (emitted w0 (snd ?run))" by (simp add: trace_defs stale_env_def)
  have t: "no_failed is_tag (emitted w0 (snd ?run))" by (simp add: trace_defs stale_env_def)
  have e: "filter is_error (emitted w0 (snd ?run)) = [Error (list_error ''src.io/app:1.1'' ''list refused'')]"
    by (simp add: trace_defs stale_env_def)
  have tg: "tag_targets (fst (target_of stale_env ''dst.io/app'')) (snd (target_of stale_env ''dst.io/app''))
              (listed (emitted w0 (snd ?run)))
            = [(''sha-src.io/app:1.0'', ''dst.io/app:a''), (''sha-stale'', ''dst.io/app:old''),
               (''sha-src.io/app:1.2'', ''dst.io/app:a'')]"
    by (simp add: trace_defs stale_env_def)
  have ps: "some_failed is_push (emitted w0 (snd ?run)) = False"
    "some_failed is_tag (emitted w0 (snd ?run)) = False"
    by (simp_all add: trace_defs stale_env_def)
  have pe: "\<And>e. filter is_push (emitted w0 (snd ?run)) = [EvPushImage ''dst.io/app'' True ''k'' False e] \<Longrightarrow> e = None"
    by (simp add: trace_defs stale_env_def)
  note th = Sync_list_failure_is_logged_not_returned[OF prod.collapse[symmetric] p]
  have 1: "map list_ref (filter is_list (emitted w0 (snd ?run))) = [''src.io/app:1.0'', ''src.io/app:1.1'', ''src.io/app:1.2'']"
    using th by (simp add: source_refs_def)
  have 2: "fst ?run = None" using th ps by simp
  have 3: "filter is_tag (emitted w0 (snd ?run))
       = [EvTagImage ''sha-src.io/app:1.0'' ''dst.io/app:a'' None,
          EvTagImage ''sha-stale'' ''dst.io/app:old'' None,
          EvTagImage ''sha-src.io/app:1.2'' ''dst.io/app:a'' None]"
    using th t tg by simp
  have 4: "filter is_push (emitted w0 (snd ?run)) = [EvPushImage ''dst.io/app'' True ''k'' False None]"
    using th t pe by blast
  show ?thesis using p t e 1 2 3 4 by blast
qed

text \<open>
  As stated, C4 has the images of a failed list call skipped. \<open>Sync\<close> appends what the call
  answered after it has logged the error: here the list call of \<open>src.io/app:1.1\<close> fails, and
  the image it answered is tagged all the same.
\<close>

theorem Sync_failed_list_images_are_tagged_counterexample:
  "filter is_list
     (emitted w0 (snd (Sync stale_env ''src.io/app'' ''u:p'' ''dst.io/app'' ''k'' [''1.1''] False w0)))
       = [EvListImages ''src.io/app:1.1''
            [\<lparr>ID = ''sha-stale'', Repo = ''src.io'', Path = ''app'', Tags = [''old'']\<rparr>]
            (Some ''list refused'')]
   \<and> filter is_tag
     (emitted w0 (snd (Sync stale_env ''src.io/app'' ''u:p'' ''dst.io/app'' ''k'' [''1.1''] False w0)))
       = [EvTagImage ''sha-stale'' ''dst.io/app:old'' None]
   \<and> fst (Sync stale_env ''src.io/app'' ''u:p'' ''dst.io/app'' ''k'' [''1.1''] False w0) = None"
  by (simp add: trace_defs stale_env_def)



text \<open>
  C8. The re-tag step never writes to an Image object that exists when it starts: after
  \<open>tag\<close>, every address allocated before holds the value it held, whatever \<open>tag\<close> returns.
  When \<open>tag\<close> succeeds, it returns one Image object per source image, each at a fresh
  address and all distinct, with the ID and the tags of its source image and the Repo and Path
  that \<open>SplitRef\<close> gives for the target reference. The source pointers are pointers to
  objects that exist (Go has no others but \<open>nil\<close>).
\<close>

theorem tag_allocates_and_leaves_the_sources:
  assumes "tag env images targetRef w = ((tagged, r), w')"
    and "\<forall>a \<in> set images. a < allocated w"
  shows "(\<forall>a < allocated w. heap w' a = heap w a)
       \<and> (r = None \<longrightarrow>
            length tagged = length images \<and> distinct tagged
            \<and> (\<forall>i < length images.
                  allocated w \<le> tagged ! i \<and> tagged ! i < allocated w'
                  \<and> heap w' (tagged ! i)
                      = \<lparr>ID = ID (heap w (images ! i)),
                         Repo = fst (target_of env targetRef),
                         Path = snd (target_of env targetRef),
                         Tags = Image.Tags (heap w (images ! i))\<rparr>))"
proof -
  obtain targetRepo targetPath x where s: "SplitRef env targetRef = (targetRepo, targetPath, x)"
    by (cases "SplitRef env targetRef") auto
  then have t: "target_of env targetRef = (targetRepo, targetPath)" by (simp add: target_of_def)
  have "tag_images env targetRepo targetPath images [] w = ((tagged, r), w')"
    using assms(1) s by (simp add: tag_def)
  note fr = tag_images_trace[OF this assms(2)]
  have frame: "\<forall>a < allocated w. heap w' a = heap w a" using fr by blast
  have fresh: "length tagged = length images \<and> distinct tagged
            \<and> (\<forall>i < length images.
                  allocated w \<le> tagged ! i \<and> tagged ! i < allocated w'
                  \<and> heap w' (tagged ! i) = retagged targetRepo targetPath (heap w (images ! i)))"
    if "r = None"
  proof -
    from fr that obtain new where n: "tagged = new" "length new = length images"
      "\<forall>a \<in> set new. allocated w \<le> a \<and> a < allocated w'" "distinct new"
      "map (heap w') new = map (\<lambda>a. retagged targetRepo targetPath (heap w a)) images"
      by auto
    have "heap w' (new ! i) = retagged targetRepo targetPath (heap w (images ! i))"
      if "i < length images" for i
    proof -
      have "map (heap w') new ! i = map (\<lambda>a. retagged targetRepo targetPath (heap w a)) images ! i"
        using n(5) by simp
      then show ?thesis using that n(2) by simp
    qed
    moreover have "allocated w \<le> new ! i \<and> new ! i < allocated w'" if "i < length images" for i
      using n(2,3) that by (metis nth_mem)
    ultimately show ?thesis using n(1,2,4) by simp
  qed
  show ?thesis using frame fresh unfolding t by (simp add: retagged_def)
qed

theorem tag_allocates_and_leaves_the_sources_witness:
  "list_all (\<lambda>a. a < allocated w2) [0, 1]
   \<and> snd (fst (tag (demo_env [] [] [] True) [0, 1] ''dst.io/app'' w2)) = None
   \<and> heap (snd (tag (demo_env [] [] [] True) [0, 1] ''dst.io/app'' w2)) 0 = heap w2 0
   \<and> heap (snd (tag (demo_env [] [] [] True) [0, 1] ''dst.io/app'' w2)) 1 = heap w2 1
   \<and> heap (snd (tag (demo_env [] [] [] True) [0, 1] ''dst.io/app'' w2))
        (fst (fst (tag (demo_env [] [] [] True) [0, 1] ''dst.io/app'' w2)) ! 1)
       = \<lparr>ID = ''sha-2'', Repo = ''dst.io'', Path = ''app'', Tags = [''c'']\<rparr>
   \<and> 2 \<le> fst (fst (tag (demo_env [] [] [] True) [0, 1] ''dst.io/app'' w2)) ! 1"
proof -
  let ?run = "tag (demo_env [] [] [] True) [0, 1] ''dst.io/app'' w2"
  have v: "\<forall>a \<in> set [0, 1]. a < allocated w2" by (simp add: w2_def run_defs)
  have c: "?run = ((fst (fst ?run), snd (fst ?run)), snd ?run)" by simp
  have r: "snd (fst ?run) = None" by (simp add: w2_def run_defs)
  have a: "allocated w2 = 2" by (simp add: w2_def run_defs)
  have h: "heap w2 1 = \<lparr>ID = ''sha-2'', Repo = ''src.io'', Path = ''app'', Tags = [''c'']\<rparr>"
    by (simp add: w2_def run_defs)
  have s: "target_of (demo_env [] [] [] True) ''dst.io/app'' = (''dst.io'', ''app'')"
    by (simp add: target_of_def demo_env_def)
  note th = tag_allocates_and_leaves_the_sources[OF c v]
  have 0: "heap (snd ?run) 0 = heap w2 0" "heap (snd ?run) 1 = heap w2 1"
    using th a by simp_all
  have 1: "heap (snd ?run) (fst (fst ?run) ! 1) = \<lparr>ID = ''sha-2'', Repo = ''dst.io'', Path = ''app'', Tags = [''c'']\<rparr>"
    "2 \<le> fst (fst ?run) ! 1"
    using th r a h s by simp_all
  show ?thesis using v r 0 1 by simp
qed

section \<open>Traces of SyncTask and SyncFromConfig\<close>

lemma grows_refl [simp]: "grows w w"
  by (simp add: grows_def)

lemma grows_trans: "grows w w' \<Longrightarrow> grows w' w'' \<Longrightarrow> grows w w''"
  by (auto simp: grows_def)

lemma growsI: "trace w' = trace w @ evs \<Longrightarrow> grows w w'"
  by (auto simp: grows_def)

lemma grows_trace: "grows w w' \<Longrightarrow> trace w' = trace w @ emitted w w'"
  by (auto simp: grows_def emitted_def)

lemma emitted_trans: "grows w w' \<Longrightarrow> grows w' w'' \<Longrightarrow> emitted w w'' = emitted w w' @ emitted w' w''"
  by (auto simp: grows_def emitted_def)

lemma emitted_self [simp]: "emitted w w = []"
  by (simp add: emitted_def)

lemma tag_images_grows:
  "tag_images env targetRepo targetPath images acc w = (x, w') \<Longrightarrow> grows w w' \<and> locs w' = locs w"
proof (induction images arbitrary: w acc)
  case Nil
  then show ?case by auto
next
  case (Cons img images)
  let ?new = "\<lparr>ID = ID (heap w img), Repo = targetRepo, Path = targetPath, Tags = Image.Tags (heap w img)\<rparr>"
  define w1 where "w1 = snd (new_Image ?new w)"
  have w1: "new_Image ?new w = (allocated w, w1)" "trace w1 = trace w" "locs w1 = locs w"
    by (simp_all add: w1_def new_Image_def)
  obtain r1 w2 where t: "tag_tags env img (allocated w) (Image.Tags (heap w1 img)) w1 = (r1, w2)"
    by (cases "tag_tags env img (allocated w) (Image.Tags (heap w1 img)) w1") auto
  from tag_tags_trace[OF t] have g: "grows w1 w2" "locs w2 = locs w1"
    by (auto intro: growsI)
  then have g': "grows w w2" using w1(2) by (auto simp: grows_def)
  show ?case
  proof (cases r1)
    case (Some e)
    with Cons.prems w1(1) t have "w' = w2" by simp
    with g' g(2) w1(3) show ?thesis by simp
  next
    case None
    with Cons.prems w1(1) t have
      "tag_images env targetRepo targetPath images (acc @ [allocated w]) w2 = (x, w')" by simp
    from Cons.IH[OF this] g' g(2) w1(3) show ?thesis by (auto intro: grows_trans)
  qed
qed

lemma Sync_grows:
  assumes "Sync env srcRef srcAuth trgtRef trgtAuth tags verbose w = (r, w')"
  shows "grows w w'" and "locs w' = locs w"
proof -
  let ?w0 = "LogInfo (''pulling source image '' @ quoted srcRef) w"
  obtain rp w1 where p: "Sync_pull env srcRef srcAuth tags verbose ?w0 = (rp, w1)"
    by (cases "Sync_pull env srcRef srcAuth tags verbose ?w0") auto
  from Sync_pull_trace[OF p] have 1: "grows ?w0 w1" "locs w1 = locs w"
    by (auto intro: growsI)
  have 0: "grows w ?w0" by (auto intro: growsI)
  have "grows w w' \<and> locs w' = locs w"
  proof (cases rp)
    case (Some e)
    with assms p have "w' = w1" by (simp add: Sync_def)
    with 0 1 show ?thesis by (auto intro: grows_trans)
  next
    case None
    let ?w1 = "LogInfo ''relevant tags'' w1"
    obtain srcImages w2 where l: "Sync_list env srcRef tags ?w1 = (srcImages, w2)"
      by (cases "Sync_list env srcRef tags ?w1") auto
    from Sync_list_trace[OF l] have 2: "grows ?w1 w2" "locs w2 = locs w1"
      by (auto intro: growsI)
    let ?w3 = "LogInfo (''setting tags for target image '' @ quoted trgtRef) (log_images env srcImages w2)"
    have 3: "grows w2 ?w3" "locs ?w3 = locs w2"
      using log_images_frame[of env srcImages w2] by (auto intro: growsI)
    obtain tagged rt w4 where t: "tag env srcImages trgtRef ?w3 = ((tagged, rt), w4)"
      by (cases "tag env srcImages trgtRef ?w3") auto
    obtain tr tp tx where s: "SplitRef env trgtRef = (tr, tp, tx)"
      by (cases "SplitRef env trgtRef") auto
    have "tag_images env tr tp srcImages [] ?w3 = ((tagged, rt), w4)"
      using t s by (simp add: tag_def)
    from tag_images_grows[OF this] have 4: "grows ?w3 w4" "locs w4 = locs ?w3"
      by simp_all
    have g4: "grows w w4"
      using 0 1(1) 2(1) 3(1) 4(1)
      by (meson growsI grows_trans LogInfo_simps(1))
    have l4: "locs w4 = locs w" using 1(2) 2(2) 3(2) 4(2) by simp
    show ?thesis
    proof (cases rt)
      case (Some e)
      with assms p None l t have "w' = w4" by (simp add: Sync_def)
      with g4 l4 show ?thesis by simp
    next
      case rtNone: None
      let ?w5 = "LogInfo (''pushing target image '' @ quoted trgtRef) w4"
      obtain e5 w5 where ps: "push env trgtRef trgtAuth verbose ?w5 = (e5, w5)"
        by (cases "push env trgtRef trgtAuth verbose ?w5") auto
      have "w' = w5" using assms p None l t rtNone ps by (cases e5; simp add: Sync_def)
      moreover have "grows w4 w5" "locs w5 = locs w4"
        using push_frame[OF ps] by (auto simp: grows_def)
      ultimately show ?thesis using g4 l4 by (auto intro: grows_trans)
    qed
  qed
  then show "grows w w'" and "locs w' = locs w" by simp_all
qed

lemma listing_sync_events: "ev \<in> set (listing tags refs answers) \<Longrightarrow> sync_event ev"
  by (induction refs answers rule: list_induct2') (auto simp: list_failure_line_def split: option.splits)

lemma Sync_quiet:
  assumes "Sync env srcRef srcAuth trgtRef trgtAuth tags verbose w = (r, w')"
  shows "list_all sync_event (emitted w w')"
  using assms
proof (cases rule: Sync_cases)
  case (pull_failed k e)
  show ?thesis unfolding pull_failed(3)
    by (auto simp: list_all_iff pull_event_def dest: in_set_takeD)
next
  case (tag_failed answers j e)
  show ?thesis unfolding tag_failed(4)
    by (auto simp: listing_sync_events list_all_iff pull_event_def tag_event_def image_lines_def dest: in_set_takeD)
next
  case (pushed answers e)
  show ?thesis unfolding pushed(3)
    by (auto simp: listing_sync_events list_all_iff pull_event_def tag_event_def image_lines_def)
qed

lemma steps_simps [simp]:
  "steps [] = []" "steps (ev # evs) = step_of ev @ steps evs" "steps (xs @ ys) = steps xs @ steps ys"
  "steps (line e) = []"
  by (auto simp: steps_def line_def split: option.splits)

lemma sync_event_no_step: "sync_event ev \<Longrightarrow> step_of ev = [] \<and> \<not> is_sched ev"
  by (cases ev) simp_all

lemma steps_sync_events [simp]: "list_all sync_event evs \<Longrightarrow> steps evs = []"
  by (induction evs) (simp_all add: sync_event_no_step)

lemma sched_sync_events [simp]: "list_all sync_event evs \<Longrightarrow> filter is_sched evs = []"
  by (induction evs) (simp_all add: sync_event_no_step)

lemma sched_line [simp]: "filter is_sched (line e) = []"
  by (simp add: line_def split: option.splits)

lemma errors_logged_sync_events:
  "list_all sync_event evs \<Longrightarrow> errors_logged (evs @ rest) = errors_logged rest"
  by (induction evs) (simp_all add: sync_event_no_step split: option.splits)

lemma errors_logged_line: "errors_logged (line e @ rest) = errors_logged rest"
  by (simp add: line_def split: option.splits)

lemma errors_logged_step:
  "errors_logged (EvRefreshAuth p e # line e @ rest) = errors_logged rest"
  "errors_logged (EvEnsureTargetExists trgt e # line e @ rest) = errors_logged rest"
  "errors_logged (EvSync src sa trgt ta tags verbose e # line e @ rest) = errors_logged rest"
  by (simp_all add: line_def split: option.splits)

lemma follows_append: "follows x xs \<Longrightarrow> follows x (xs @ ys)"
  by (cases xs) simp_all

lemma errors_logged_append:
  "errors_logged xs \<Longrightarrow> errors_logged ys \<Longrightarrow> errors_logged (xs @ ys)"
  by (induction xs) (auto split: option.splits intro: follows_append)

lemma errors_logged_Info [simp]: "errors_logged (Info m # rest) = errors_logged rest"
  by simp

lemma refreshAuth_call_frame:
  assumes "refreshAuth_call env p w = (e, w')"
  shows "trace w' = trace w @ [EvRefreshAuth p e]"
    and "Registry (locs w' q) = Registry (locs w q)"
  using assms by (auto simp: refreshAuth_call_def split: prod.splits)

lemma ensureTargetExists_call_frame:
  assumes "ensureTargetExists_call env t trgt w = (e, w')"
  shows "trace w' = trace w @ [EvEnsureTargetExists trgt e]" and "locs w' = locs w"
  using assms by (auto simp: ensureTargetExists_call_def split: prod.splits)

lemma SyncTask_mapping_trace:
  "\<exists>src trgt e1 e2 e3 e4 sa ta evs.
      mappingRefs env t (Registry (locs w (Source t))) (Registry (locs w (Target t))) m = (src, trgt)
    \<and> trace (SyncTask_mapping env t m w)
        = trace w @ Info (''mapping '' @ quoted (From m) @ '' to '' @ quoted (To m))
          # EvRefreshAuth (Source t) e1 # line e1
          @ EvRefreshAuth (Target t) e2 # line e2
          @ EvEnsureTargetExists trgt e3 # line e3
          @ evs
          @ EvSync src sa trgt ta (mapping.Tags m) (Verbose t) e4 # line e4
    \<and> list_all sync_event evs
    \<and> (\<forall>q. Registry (locs (SyncTask_mapping env t m w) q) = Registry (locs w q))"
proof -
  let ?w1 = "LogInfo (''mapping '' @ quoted (From m) @ '' to '' @ quoted (To m)) w"
  obtain src trgt where mr:
    "mappingRefs env t (Registry (locs w (Source t))) (Registry (locs w (Target t))) m = (src, trgt)"
    by (cases "mappingRefs env t (Registry (locs w (Source t))) (Registry (locs w (Target t))) m") auto
  obtain e1 w2 where r1: "refreshAuth_call env (Source t) ?w1 = (e1, w2)"
    by (cases "refreshAuth_call env (Source t) ?w1") auto
  obtain e2 w3 where r2: "refreshAuth_call env (Target t) (snd (LogError e1 w2)) = (e2, w3)"
    by (cases "refreshAuth_call env (Target t) (snd (LogError e1 w2))") auto
  obtain e3 w4 where r3: "ensureTargetExists_call env t trgt (snd (LogError e2 w3)) = (e3, w4)"
    by (cases "ensureTargetExists_call env t trgt (snd (LogError e2 w3))") auto
  let ?w5 = "snd (LogError e3 w4)"
  let ?sa = "Auth (locs ?w5 (Source t))" and ?ta = "Auth (locs ?w5 (Target t))"
  obtain e4 w6 where sy: "Sync env src ?sa trgt ?ta (mapping.Tags m) (Verbose t) ?w5 = (e4, w6)"
    by (cases "Sync env src ?sa trgt ?ta (mapping.Tags m) (Verbose t) ?w5") auto
  have res: "SyncTask_mapping env t m w
      = snd (LogError e4 (emit (EvSync src ?sa trgt ?ta (mapping.Tags m) (Verbose t) e4) w6))"
    using mr r1 r2 r3 sy by (simp add: SyncTask_mapping_def Let_def)
  note f1 = refreshAuth_call_frame[OF r1] and f2 = refreshAuth_call_frame[OF r2]
    and f3 = ensureTargetExists_call_frame[OF r3]
  note g = Sync_grows[OF sy]
  obtain evs where t6: "trace w6 = trace ?w5 @ evs" using g(1) by (auto simp: grows_def)
  have q: "list_all sync_event evs" using Sync_quiet[OF sy] t6 by simp
  have tr: "trace (SyncTask_mapping env t m w)
        = trace w @ Info (''mapping '' @ quoted (From m) @ '' to '' @ quoted (To m))
          # EvRefreshAuth (Source t) e1 # line e1
          @ EvRefreshAuth (Target t) e2 # line e2
          @ EvEnsureTargetExists trgt e3 # line e3
          @ evs
          @ EvSync src ?sa trgt ?ta (mapping.Tags m) (Verbose t) e4 # line e4"
    unfolding res using t6 f1(1) f2(1) f3(1) by (simp add: line_def)
  have reg: "\<forall>q. Registry (locs (SyncTask_mapping env t m w) q) = Registry (locs w q)"
    unfolding res using g(2) f1(2) f2(2) f3(2) by simp
  show ?thesis
    using mr tr reg q by blast
qed

lemma SyncTask_mapping_facts:
  shows "grows w (SyncTask_mapping env t m w)"
    and "steps (emitted w (SyncTask_mapping env t m w)) = mapping_steps env t w m"
    and "errors_logged (emitted w (SyncTask_mapping env t m w))"
    and "filter is_sched (emitted w (SyncTask_mapping env t m w)) = []"
    and "Registry (locs (SyncTask_mapping env t m w) q) = Registry (locs w q)"
proof -
  from SyncTask_mapping_trace[of env t w m] obtain src trgt e1 e2 e3 e4 sa ta evs where
    mr: "mappingRefs env t (Registry (locs w (Source t))) (Registry (locs w (Target t))) m = (src, trgt)"
    and tr: "trace (SyncTask_mapping env t m w)
        = trace w @ Info (''mapping '' @ quoted (From m) @ '' to '' @ quoted (To m))
          # EvRefreshAuth (Source t) e1 # line e1
          @ EvRefreshAuth (Target t) e2 # line e2
          @ EvEnsureTargetExists trgt e3 # line e3
          @ evs
          @ EvSync src sa trgt ta (mapping.Tags m) (Verbose t) e4 # line e4"
    and q: "list_all sync_event evs"
    and reg: "\<forall>q. Registry (locs (SyncTask_mapping env t m w) q) = Registry (locs w q)"
    by blast
  show "grows w (SyncTask_mapping env t m w)" using tr by (rule growsI)
  have em: "emitted w (SyncTask_mapping env t m w)
        = Info (''mapping '' @ quoted (From m) @ '' to '' @ quoted (To m))
          # EvRefreshAuth (Source t) e1 # line e1
          @ EvRefreshAuth (Target t) e2 # line e2
          @ EvEnsureTargetExists trgt e3 # line e3
          @ evs
          @ EvSync src sa trgt ta (mapping.Tags m) (Verbose t) e4 # line e4"
    using tr by simp
  show "steps (emitted w (SyncTask_mapping env t m w)) = mapping_steps env t w m"
    unfolding em using q mr by (simp add: mapping_steps_def)
  have "errors_logged (EvSync src sa trgt ta (mapping.Tags m) (Verbose t) e4 # line e4 @ [])"
    by (subst errors_logged_step) simp
  then have "errors_logged (evs @ EvSync src sa trgt ta (mapping.Tags m) (Verbose t) e4 # line e4)"
    using q by (simp add: errors_logged_sync_events del: errors_logged.simps)
  then show "errors_logged (emitted w (SyncTask_mapping env t m w))"
    unfolding em
    by (simp add: errors_logged_step errors_logged_Info del: errors_logged.simps)
  show "filter is_sched (emitted w (SyncTask_mapping env t m w)) = []"
    unfolding em using q by simp
  show "Registry (locs (SyncTask_mapping env t m w) q) = Registry (locs w q)"
    using reg by simp
qed


lemma mapping_steps_cong:
  "\<forall>q. Registry (locs w1 q) = Registry (locs w q) \<Longrightarrow> mapping_steps env t w1 m = mapping_steps env t w m"
  by (simp add: mapping_steps_def)

lemma SyncTask_mappings_facts:
  "grows w (SyncTask_mappings env t ms w)
   \<and> steps (emitted w (SyncTask_mappings env t ms w)) = concat (map (mapping_steps env t w) ms)
   \<and> errors_logged (emitted w (SyncTask_mappings env t ms w))
   \<and> filter is_sched (emitted w (SyncTask_mappings env t ms w)) = []
   \<and> (\<forall>q. Registry (locs (SyncTask_mappings env t ms w) q) = Registry (locs w q))"
proof (induction ms arbitrary: w)
  case Nil
  show ?case by simp
next
  case (Cons m ms)
  let ?w1 = "SyncTask_mapping env t m w"
  let ?w2 = "SyncTask_mappings env t ms ?w1"
  note f = SyncTask_mapping_facts[where w=w and env=env and t=t and m=m]
  note ih = Cons.IH[where w="?w1"]
  have reg1: "\<forall>q. Registry (locs ?w1 q) = Registry (locs w q)" using f(5) by blast
  have em: "emitted w ?w2 = emitted w ?w1 @ emitted ?w1 ?w2"
    using f(1) ih by (intro emitted_trans) simp_all
  have st: "concat (map (mapping_steps env t ?w1) ms) = concat (map (mapping_steps env t w) ms)"
  proof -
    have "mapping_steps env t ?w1 = mapping_steps env t w"
      by (rule ext) (rule mapping_steps_cong[OF reg1])
    then show ?thesis by simp
  qed
  have "grows w ?w2" using f(1) ih by (blast intro: grows_trans)
  moreover have "steps (emitted w ?w2) = concat (map (mapping_steps env t w) (m # ms))"
    unfolding em using f(2) ih st by simp
  moreover have "errors_logged (emitted w ?w2)"
    unfolding em using f(3) ih by (intro errors_logged_append) simp_all
  moreover have "filter is_sched (emitted w ?w2) = []"
    unfolding em using f(4) ih by simp
  moreover have "\<forall>q. Registry (locs ?w2 q) = Registry (locs w q)"
    using reg1 ih by simp
  ultimately show ?case by simp
qed

lemma SyncTask_facts:
  shows "grows w (SyncTask env t w)"
    and "steps (emitted w (SyncTask env t w)) = concat (map (mapping_steps env t w) (Mappings t))"
    and "errors_logged (emitted w (SyncTask env t w))"
    and "filter is_sched (emitted w (SyncTask env t w)) = [EvSyncTask t]"
proof -
  let ?w1 = "emit (EvSyncTask t) w"
  let ?msg = "''syncing task '' @ quoted (Name t) @ '': ''
                @ quoted (Registry (locs ?w1 (Source t))) @ '' --> ''
                @ quoted (Registry (locs ?w1 (Target t)))"
  let ?w2 = "LogInfo ?msg ?w1"
  let ?w3 = "SyncTask_mappings env t (Mappings t) ?w2"
  note f = SyncTask_mappings_facts[where w="?w2" and env=env and t=t and ms="Mappings t"]
  have res: "SyncTask env t w = LogPrintln ?w3" by (simp add: SyncTask_def Let_def)
  obtain evs where t3: "trace ?w3 = trace ?w2 @ evs" using f by (auto simp: grows_def)
  then have e3: "emitted ?w2 ?w3 = evs" by simp
  have tr: "trace (SyncTask env t w) = trace w @ EvSyncTask t # Info ?msg # evs @ [Info []]"
    unfolding res using t3 by simp
  then have em: "emitted w (SyncTask env t w) = EvSyncTask t # Info ?msg # evs @ [Info []]"
    by simp
  show "grows w (SyncTask env t w)" using tr by (rule growsI)
  have "mapping_steps env t ?w2 = mapping_steps env t w"
    by (rule ext) (simp add: mapping_steps_def)
  then show "steps (emitted w (SyncTask env t w)) = concat (map (mapping_steps env t w) (Mappings t))"
    unfolding em using f e3 by simp
  have "errors_logged (evs @ [Info []])"
    using f e3 by (intro errors_logged_append) simp_all
  then show "errors_logged (emitted w (SyncTask env t w))" unfolding em by simp
  show "filter is_sched (emitted w (SyncTask env t w)) = [EvSyncTask t]"
    unfolding em using f e3 by simp
qed

lemma one_off_tasks_facts:
  "grows w (one_off_tasks env ts w)
   \<and> filter is_sched (emitted w (one_off_tasks env ts w)) = map EvSyncTask (filter (\<lambda>t. Interval t = 0) ts)"
proof (induction ts arbitrary: w)
  case Nil
  show ?case by simp
next
  case (Cons t ts)
  show ?case
  proof (cases "Interval t = 0")
    case True
    let ?w1 = "SyncTask env t w"
    let ?w2 = "one_off_tasks env ts ?w1"
    note f = SyncTask_facts[where w=w and env=env and t=t]
    note ih = Cons.IH[where w="?w1"]
    have em: "emitted w ?w2 = emitted w ?w1 @ emitted ?w1 ?w2"
      using f(1) ih by (intro emitted_trans) simp_all
    have "grows w ?w2" using f(1) ih by (blast intro: grows_trans)
    moreover have "filter is_sched (emitted w ?w2) = map EvSyncTask (filter (\<lambda>t. Interval t = 0) (t # ts))"
      unfolding em using f(4) ih True by simp
    ultimately show ?thesis using True by simp
  next
    case False
    then show ?thesis using Cons.IH[where w=w] by simp
  qed
qed

lemma periodic_tasks_facts:
  "periodic_tasks ts ticking w = (tk, w') \<Longrightarrow>
     trace w' = trace w @ map EvStartTicking (filter (\<lambda>t. 0 < Interval t) ts)
     \<and> tk = (ticking \<or> filter (\<lambda>t. 0 < Interval t) ts \<noteq> [])"
  by (induction ts arbitrary: ticking w) (auto simp: startTicking_def split: if_splits)

lemma tick_loop_facts:
  "fst (tick_loop env ticks w) = Waiting
   \<and> grows w (snd (tick_loop env ticks w))
   \<and> filter is_sched (emitted w (snd (tick_loop env ticks w))) = map EvSyncTask ticks"
proof (induction ticks arbitrary: w)
  case Nil
  have "trace (snd (tick_loop env [] w)) = trace w @ [Info [], Info ''waiting for next sync task...'', Info []]"
    by simp
  then show ?case by (simp add: grows_def)
next
  case (Cons t ticks)
  let ?w0 = "LogPrintln (LogInfo ''waiting for next sync task...'' (LogPrintln w))"
  let ?w1 = "SyncTask env t ?w0"
  let ?w2 = "snd (tick_loop env ticks ?w1)"
  note f = SyncTask_facts[where w="?w0" and env=env and t=t]
  note ih = Cons.IH[where w="?w1"]
  have t0: "trace ?w0 = trace w @ [Info [], Info ''waiting for next sync task...'', Info []]" by simp
  have g0: "grows w ?w0" using t0 by (rule growsI)
  have e0: "emitted w ?w0 = [Info [], Info ''waiting for next sync task...'', Info []]"
    using t0 by simp
  have g1: "grows w ?w1" using g0 f(1) by (rule grows_trans)
  have e1: "emitted w ?w1 = emitted w ?w0 @ emitted ?w0 ?w1" using g0 f(1) by (rule emitted_trans)
  have e2: "emitted w ?w2 = emitted w ?w1 @ emitted ?w1 ?w2" using g1 ih by (intro emitted_trans) simp_all
  have res: "tick_loop env (t # ticks) w = tick_loop env ticks ?w1" by simp
  have "grows w ?w2" using g1 ih by (blast intro: grows_trans)
  moreover have "filter is_sched (emitted w ?w2) = map EvSyncTask (t # ticks)"
    unfolding e2 e1 e0 using f(4) ih by simp
  ultimately show ?case unfolding res using ih by simp
qed

lemma Ping_call_frame:
  assumes "Ping_call env n sleep w = (e, w')"
  shows "trace w' = trace w @ [EvPing n sleep e]"
  using assms by (auto simp: Ping_call_def split: prod.splits)

lemma SyncFromConfig_trace:
  assumes "SyncFromConfig env conf ticks w = (out, w')"
  shows "\<exists>e rest. emitted w w' = Info [] # Info ''pinging Docker daemon...'' # EvPing 30 (10 * Second) e
                        # (case e of None \<Rightarrow> Info ''ok'' | Some m \<Rightarrow> Error m) # rest
           \<and> filter is_sched rest
               = map EvSyncTask (one_off conf) @ map EvStartTicking (recurring conf)
                 @ (if recurring conf = [] then [] else map EvSyncTask ticks)
           \<and> out = (if recurring conf = [] then Returned None else Waiting)
           \<and> (recurring conf = [] \<longrightarrow> last (emitted w w') = Info ''all done'')"
proof -
  let ?w1 = "LogInfo ''pinging Docker daemon...'' (LogPrintln w)"
  obtain e w2 where p: "Ping_call env 30 (10 * Second) ?w1 = (e, w2)"
    by (cases "Ping_call env 30 (10 * Second) ?w1") auto
  let ?w3 = "if e \<noteq> None then snd (LogError e w2) else LogInfo ''ok'' w2"
  let ?w4 = "one_off_tasks env (Tasks conf) ?w3"
  obtain tk w5 where pt: "periodic_tasks (Tasks conf) False ?w4 = (tk, w5)"
    by (cases "periodic_tasks (Tasks conf) False ?w4") auto
  have res: "SyncFromConfig env conf ticks w
      = (if tk then tick_loop env ticks w5 else (Returned None, LogInfo ''all done'' w5))"
    using p pt by (simp add: SyncFromConfig_def Let_def)
  let ?head = "[Info [], Info ''pinging Docker daemon...'', EvPing 30 (10 * Second) e,
                (case e of None \<Rightarrow> Info ''ok'' | Some m \<Rightarrow> Error m)]"
  have t3: "trace ?w3 = trace w @ ?head"
    using Ping_call_frame[OF p] by (cases e) simp_all
  note f4 = one_off_tasks_facts[where w="?w3" and env=env and ts="Tasks conf"]
  obtain evs4 where t4: "trace ?w4 = trace ?w3 @ evs4" using f4 by (auto simp: grows_def)
  have s4: "filter is_sched evs4 = map EvSyncTask (one_off conf)"
    using f4 t4 by (simp add: one_off_def)
  note f5 = periodic_tasks_facts[OF pt]
  have t5: "trace w5 = trace w @ ?head @ evs4 @ map EvStartTicking (recurring conf)"
    using f5 t4 t3 by (simp add: recurring_def)
  have tk: "tk = (recurring conf \<noteq> [])" using f5 by (simp add: recurring_def)
  have s5: "filter is_sched (map EvStartTicking (recurring conf)) = map EvStartTicking (recurring conf)"
    by (induction "recurring conf") (simp_all add: filter_map comp_def)
  show ?thesis
  proof (cases "recurring conf = []")
    case True
    then have r: "out = Returned None" "w' = LogInfo ''all done'' w5"
      using assms res tk by simp_all
    have "trace w' = trace w @ ?head @ (evs4 @ map EvStartTicking (recurring conf) @ [Info ''all done''])"
      using r(2) t5 by simp
    then have em: "emitted w w' = ?head @ (evs4 @ map EvStartTicking (recurring conf) @ [Info ''all done''])"
      by (rule emitted_append)
    show ?thesis
      apply (rule exI[of _ e])
      apply (rule exI[of _ "evs4 @ map EvStartTicking (recurring conf) @ [Info ''all done'']"])
      using em s4 r(1) True by simp
  next
    case False
    then have r: "out = fst (tick_loop env ticks w5)" "w' = snd (tick_loop env ticks w5)"
      using assms res tk by (simp_all add: prod_eq_iff)
    note f6 = tick_loop_facts[where w=w5 and env=env and ticks=ticks]
    obtain evs6 where t6: "trace w' = trace w5 @ evs6" using f6 r(2) by (auto simp: grows_def)
    have s6: "filter is_sched evs6 = map EvSyncTask ticks" using f6 t6 r(2) by simp
    have "trace w' = trace w @ ?head @ (evs4 @ map EvStartTicking (recurring conf) @ evs6)"
      using t6 t5 by simp
    then have em: "emitted w w' = ?head @ (evs4 @ map EvStartTicking (recurring conf) @ evs6)"
      by (rule emitted_append)
    show ?thesis
      apply (rule exI[of _ e])
      apply (rule exI[of _ "evs4 @ map EvStartTicking (recurring conf) @ evs6"])
      using em s4 s5 s6 r(1) f6 False by simp
  qed
qed

section \<open>The claims about SyncTask and SyncFromConfig\<close>







end
